theory Spec2Isabelle
  imports Complex_Main "HOL-Library.Char_ord" "HOL-Library.List_Lexorder"
begin

section \<open>Library operations on float64\<close>

text \<open>
  The program computes on Go's float64. The arithmetic, the comparison, the formatting
  and the parsing that the source calls belong to the Go runtime and standard library;
  the embedding takes them as the fields of one record, so that every definition below
  is the source's own control flow over them. The type variable \<open>'f\<close> stands for
  float64.

  \<open>fromInt\<close> is the conversion float64(i), also applied to an untyped integer constant;
  \<open>Pow\<close> is math.Pow; \<open>Mul\<close> and \<open>Quo\<close> are the operators * and /; \<open>Round\<close> is
  math.Round; \<open>Gt\<close> is the operator >; \<open>Sprintf_2f\<close> is fmt.Sprintf with the verb
  %.2f; \<open>ParseFloat\<close> is strconv.ParseFloat, with \<open>None\<close> for a non-nil error.
\<close>

record 'f float64_ops =
  fromInt :: "int \<Rightarrow> 'f"
  Pow :: "'f \<Rightarrow> 'f \<Rightarrow> 'f"
  Mul :: "'f \<Rightarrow> 'f \<Rightarrow> 'f"
  Quo :: "'f \<Rightarrow> 'f \<Rightarrow> 'f"
  Round :: "'f \<Rightarrow> 'f"
  Gt :: "'f \<Rightarrow> 'f \<Rightarrow> bool"
  Sprintf_2f :: "'f \<Rightarrow> string"
  ParseFloat :: "string \<Rightarrow> 'f option"

section \<open>The formatter\<close>

text \<open>roundToPrecision: factor := math.Pow(10, float64(precision)), then
  math.Round(num*factor) / factor.\<close>

definition roundToPrecision :: "'f float64_ops \<Rightarrow> 'f \<Rightarrow> int \<Rightarrow> 'f" where
  "roundToPrecision L num precision =
     (let factor = Pow L (fromInt L 10) (fromInt L precision)
      in Quo L (Round L (Mul L num factor)) factor)"

text \<open>The two markers of the source are the UTF-8 encodings of U+1F7E9 (green square)
  and U+1F7E5 (red square); a Go string is its bytes.\<close>

definition green_square :: string where
  "green_square = [CHR 0xF0, CHR 0x9F, CHR 0x9F, CHR 0xA9]"

definition red_square :: string where
  "red_square = [CHR 0xF0, CHR 0x9F, CHR 0x9F, CHR 0xA5]"

text \<open>buildPriceString appends to a strings.Builder: the name and price line, one
  branch of each of the three if/else statements, and a newline. The builder is the
  accumulated string \<open>s0\<close> .. \<open>s3\<close>.\<close>

definition buildPriceString :: "'f float64_ops \<Rightarrow> string \<Rightarrow> 'f \<Rightarrow> 'f \<Rightarrow> 'f \<Rightarrow> 'f \<Rightarrow> string" where
  "buildPriceString L token price change1h change24h change7d =
     (let s0 = token @ '': '' @ Sprintf_2f L (roundToPrecision L price 2) @ [CHR 0x0A];
          s1 = (if Gt L change1h (fromInt L 0)
                then s0 @ green_square @ '' 1h:'' @ [CHR 0x0A]
                        @ Sprintf_2f L (roundToPrecision L change1h 2) @ ''%'' @ [CHR 0x0A]
                else s0 @ red_square @ '' 1h:'' @ [CHR 0x0A]
                        @ Sprintf_2f L (roundToPrecision L change1h 2) @ ''%'' @ [CHR 0x0A]);
          s2 = (if Gt L change24h (fromInt L 0)
                then s1 @ green_square @ '' 24h:'' @ [CHR 0x0A]
                        @ Sprintf_2f L (roundToPrecision L change24h 2) @ ''%'' @ [CHR 0x0A]
                else s1 @ red_square @ '' 24h:'' @ [CHR 0x0A]
                        @ Sprintf_2f L (roundToPrecision L change24h 2) @ ''%'' @ [CHR 0x0A]);
          s3 = (if Gt L change7d (fromInt L 0)
                then s2 @ green_square @ '' 7d:'' @ [CHR 0x0A]
                        @ Sprintf_2f L (roundToPrecision L change7d 2) @ ''%'' @ [CHR 0x0A]
                else s2 @ red_square @ '' 7d:'' @ [CHR 0x0A]
                        @ Sprintf_2f L (roundToPrecision L change7d 2) @ ''%'' @ [CHR 0x0A])
      in s3 @ [CHR 0x0A])"

text \<open>The layout in the specification's words: a marker chosen by the sign, and a
  block "marker label:\<newline>value%\<newline>".\<close>

definition marker :: "'f float64_ops \<Rightarrow> 'f \<Rightarrow> string" where
  "marker L x = (if Gt L x (fromInt L 0) then green_square else red_square)"

definition pct_block :: "'f float64_ops \<Rightarrow> string \<Rightarrow> 'f \<Rightarrow> string" where
  "pct_block L label x =
     marker L x @ '' '' @ label @ '':'' @ [CHR 0x0A]
       @ Sprintf_2f L (roundToPrecision L x 2) @ ''%'' @ [CHR 0x0A]"

definition price_line :: "'f float64_ops \<Rightarrow> string \<Rightarrow> 'f \<Rightarrow> string" where
  "price_line L token price =
     token @ '': '' @ Sprintf_2f L (roundToPrecision L price 2) @ [CHR 0x0A]"

section \<open>The API response\<close>

text \<open>The structs of the source, with the fields the program reads. A Go map is a
  partial function; indexing it at a missing key yields the zero value of the element
  type, which \<open>lookup_Data\<close> and \<open>lookup_Quote\<close> write out.\<close>

record Status =
  ErrorCode :: int
  ErrorMessage :: "string option"

record 'f Quote =
  Price :: "'f"
  PercentChange1h :: "'f"
  PercentChange24h :: "'f"
  PercentChange7d :: "'f"

record 'f CryptoData =
  Name :: string
  Quotes :: "string \<rightharpoonup> 'f Quote"

record 'f Response =
  Status :: Status
  Data :: "string \<rightharpoonup> 'f CryptoData"

definition zero_Quote :: "'f float64_ops \<Rightarrow> 'f Quote" where
  "zero_Quote L =
     \<lparr>Price = fromInt L 0, PercentChange1h = fromInt L 0,
      PercentChange24h = fromInt L 0, PercentChange7d = fromInt L 0\<rparr>"

definition lookup_Quote :: "'f float64_ops \<Rightarrow> 'f CryptoData \<Rightarrow> string \<Rightarrow> 'f Quote" where
  "lookup_Quote L v c = (case Quotes v c of Some q \<Rightarrow> q | None \<Rightarrow> zero_Quote L)"

definition lookup_Data :: "'f Response \<Rightarrow> string \<Rightarrow> 'f CryptoData" where
  "lookup_Data r key =
     (case Data r key of Some v \<Rightarrow> v | None \<Rightarrow> \<lparr>Name = [], Quotes = Map.empty\<rparr>)"

text \<open>What one HTTP exchange hands to the loop: client.Do failed, the JSON decoder
  failed, or a Response was decoded.\<close>

datatype 'f reply = DoFailed | DecodeFailed | Decoded "'f Response"

section \<open>The poll loop of the text variant\<close>

text \<open>The body of the loop over the sorted keys: one buildPriceString per key, written
  to the builder resStr.\<close>

definition asset_block :: "'f float64_ops \<Rightarrow> 'f Response \<Rightarrow> string \<Rightarrow> string" where
  "asset_block L r key =
     (let v = lookup_Data r key
      in buildPriceString L (Name v)
           (Price (lookup_Quote L v ''USD''))
           (PercentChange1h (lookup_Quote L v ''USD''))
           (PercentChange24h (lookup_Quote L v ''USD''))
           (PercentChange7d (lookup_Quote L v ''USD'')))"

text \<open>The keys are collected by ranging over the map, in an order the Go runtime
  chooses: \<open>ranged\<close> is that order, a list of the keys of the map without repetition.
  sort.Strings orders them bytewise, which is the lexicographic order on byte lists.\<close>

definition ranges_over :: "string list \<Rightarrow> (string \<rightharpoonup> 'v) \<Rightarrow> bool" where
  "ranges_over ranged m = (distinct ranged \<and> set ranged = dom m)"

definition format_cycle :: "'f float64_ops \<Rightarrow> 'f Response \<Rightarrow> string list \<Rightarrow> string" where
  "format_cycle L r ranged =
     (let keys = sort ranged
      in fold (\<lambda>key resStr. resStr @ asset_block L r key) keys [])"

text \<open>The events the loop produces, the ways it ends, and what the environment
  supplies at one iteration: whether a value can be received from qChan when the select
  statement runs, the reply of the API, and the order in which the map is ranged over.
  \<open>Returned\<close> is the return statement, after which the deferred wg.Done() runs (the
  event \<open>WgDone\<close>); \<open>Exited\<close> is os.Exit(1), directly or through log.Fatal, which ends
  the process without running deferred calls; \<open>Panicked\<close> is a panic that nothing
  recovers, which ends the process (the trace does not record the deferred calls that
  run while the goroutine unwinds); \<open>Running\<close> says that the supplied iterations are
  used up and the loop is still going.\<close>

datatype event = Get | SendText string | SendPhoto string string | Sleep nat | WgDone

datatype error = ENOENT | EBADF | ParseError | IndexOutOfRange | PlotError

datatype outcome = Returned | Exited | Panicked error | Running

record 'f iteration =
  stop :: bool
  reply :: "'f reply"
  ranged :: "string list"

fun pollApi_text_loop :: "'f float64_ops \<Rightarrow> 'f iteration list \<Rightarrow> event list \<times> outcome" where
  "pollApi_text_loop L [] = ([], Running)"
| "pollApi_text_loop L (i # rest) =
     (if stop i then ([WgDone], Returned)
      else (case reply i of
              DoFailed \<Rightarrow> ([Get], Exited)
            | DecodeFailed \<Rightarrow> ([Get], Exited)
            | Decoded r \<Rightarrow>
                (case pollApi_text_loop L rest of
                   (evs, out) \<Rightarrow>
                     (Get # SendText (format_cycle L r (ranged i)) # Sleep 5 # evs, out))))"

text \<open>Before the loop, the channel id is parsed and the chat is resolved; either
  failure is log.Fatal.\<close>

definition pollApi_text :: "'f float64_ops \<Rightarrow> bool \<Rightarrow> 'f iteration list \<Rightarrow> event list \<times> outcome" where
  "pollApi_text L chat_resolved its =
     (if chat_resolved then pollApi_text_loop L its else ([], Exited))"

section \<open>Files\<close>

text \<open>The file system is a flat map from a path to the bytes of the file. Every path
  can be created and every existing file can be opened: permissions, directories and
  device errors belong to the environment and are not modelled. What the program
  decides itself is modelled: the mode in which it opens a file. os.Open opens for
  reading only, and a write through such a handle fails with EBADF; the handle of
  os.OpenFile with O_APPEND|O_WRONLY|O_CREATE is writable, and every write through it
  goes to the end of the file.\<close>

type_synonym filesystem = "string \<rightharpoonup> string"

record File =
  path :: string
  writable :: bool

definition os_Open :: "filesystem \<Rightarrow> string \<Rightarrow> error + File" where
  "os_Open fs name =
     (case fs name of
        None \<Rightarrow> Inl ENOENT
      | Some c \<Rightarrow> Inr \<lparr>path = name, writable = False\<rparr>)"

definition os_OpenFile_append :: "filesystem \<Rightarrow> string \<Rightarrow> error + filesystem \<times> File" where
  "os_OpenFile_append fs name =
     (case fs name of
        None \<Rightarrow> Inr (fs(name \<mapsto> []), \<lparr>path = name, writable = True\<rparr>)
      | Some c \<Rightarrow> Inr (fs, \<lparr>path = name, writable = True\<rparr>))"

definition File_WriteString :: "filesystem \<Rightarrow> File \<Rightarrow> string \<Rightarrow> error + filesystem" where
  "File_WriteString fs f s =
     (if writable f
      then Inr (fs(path f \<mapsto> (case fs (path f) of None \<Rightarrow> s | Some c \<Rightarrow> c @ s)))
      else Inl EBADF)"

subsection \<open>bufio.Scanner with the default split function ScanLines\<close>

text \<open>A token is a line without its newline and without one trailing carriage return;
  a last line that has no newline is a token when it is not empty. The scanner's buffer
  holds at most MaxScanTokenSize bytes, so a line of that many bytes or more ends the
  scan (Scan returns false, and the source does not look at scanner.Err()).
  \<open>cur\<close> is the part of the current line read so far.\<close>

definition MaxScanTokenSize :: nat where
  "MaxScanTokenSize = 64 * 1024"

definition dropCR :: "string \<Rightarrow> string" where
  "dropCR data = (if data \<noteq> [] \<and> last data = CHR 0x0D then butlast data else data)"

fun scan_tokens :: "string \<Rightarrow> string \<Rightarrow> string list" where
  "scan_tokens cur [] =
     (if cur = [] \<or> MaxScanTokenSize \<le> length cur then [] else [dropCR cur])"
| "scan_tokens cur (c # cs) =
     (if c = CHR 0x0A
      then (if MaxScanTokenSize \<le> length cur then [] else dropCR cur # scan_tokens [] cs)
      else scan_tokens (cur @ [c]) cs)"

definition ScanLines :: "string \<Rightarrow> string list" where
  "ScanLines data = scan_tokens [] data"

subsection \<open>bufio.Writer\<close>

text \<open>NewWriter gives a buffer of defaultBufSize bytes. WriteString copies into the
  buffer while the string fits. When it does not fit, the writer hands data to the
  underlying file: the whole string when the buffer is empty, otherwise the buffer
  filled up with the head of the string (Flush), after which the rest of the string is
  treated the same way. A failed write of the file is kept in the writer and returned.
  Nothing reaches the file before the buffer overflows or Flush is called.\<close>

definition defaultBufSize :: nat where
  "defaultBufSize = 4096"

record Writer =
  wr :: File
  buf :: string
  err :: "error option"

definition NewWriter :: "File \<Rightarrow> Writer" where
  "NewWriter f = \<lparr>wr = f, buf = [], err = None\<rparr>"

definition Writer_WriteString ::
    "filesystem \<Rightarrow> Writer \<Rightarrow> string \<Rightarrow> filesystem \<times> Writer \<times> error option" where
  "Writer_WriteString fs b s =
     (case err b of
        Some e \<Rightarrow> (fs, b, Some e)
      | None \<Rightarrow>
          if length s \<le> defaultBufSize - length (buf b)
          then (fs, b\<lparr>buf := buf b @ s\<rparr>, None)
          else if buf b = []
          then (case File_WriteString fs (wr b) s of
                  Inl e \<Rightarrow> (fs, b\<lparr>err := Some e\<rparr>, Some e)
                | Inr fs1 \<Rightarrow> (fs1, b, None))
          else (let n = defaultBufSize - length (buf b)
                in case File_WriteString fs (wr b) (buf b @ take n s) of
                     Inl e \<Rightarrow> (fs, b\<lparr>buf := buf b @ take n s, err := Some e\<rparr>, Some e)
                   | Inr fs1 \<Rightarrow>
                       if length (drop n s) \<le> defaultBufSize
                       then (fs1, b\<lparr>buf := drop n s\<rparr>, None)
                       else (case File_WriteString fs1 (wr b) (drop n s) of
                               Inl e \<Rightarrow> (fs1, b\<lparr>buf := [], err := Some e\<rparr>, Some e)
                             | Inr fs2 \<Rightarrow> (fs2, b\<lparr>buf := []\<rparr>, None))))"

section \<open>The history store\<close>

subsection \<open>fetchPoints\<close>

text \<open>strings.Split with a separator of one byte: the fields between the separators,
  one more than there are separators.\<close>

fun split_fields :: "char \<Rightarrow> string \<Rightarrow> string \<Rightarrow> string list" where
  "split_fields sep cur [] = [cur]"
| "split_fields sep cur (c # cs) =
     (if c = sep then cur # split_fields sep [] cs else split_fields sep (cur @ [c]) cs)"

definition strings_Split :: "string \<Rightarrow> char \<Rightarrow> string list" where
  "strings_Split s sep = split_fields sep [] s"

text \<open>The loop over scanner.Scan(): contents keeps at most max = 100 lines, dropping
  its first line before it appends to a full slice.\<close>

fun scan_loop :: "string list \<Rightarrow> string list \<Rightarrow> string list" where
  "scan_loop contents [] = contents"
| "scan_loop contents (line # rest) =
     scan_loop ((if 100 \<le> length contents then tl contents else contents) @ [line]) rest"

text \<open>The loop over pts, from index \<open>i\<close> on: data[1] panics with an index out of
  range when Split gave one field, and the error of ParseFloat is a panic.\<close>

fun points_loop :: "'f float64_ops \<Rightarrow> nat \<Rightarrow> string list \<Rightarrow> error + ('f \<times> 'f) list" where
  "points_loop L i [] = Inr []"
| "points_loop L i (line # rest) =
     (case strings_Split line (CHR ''|'') of
        d0 # d1 # ds \<Rightarrow>
          (case ParseFloat L d1 of
             None \<Rightarrow> Inl ParseError
           | Some price \<Rightarrow>
               (case points_loop L (Suc i) rest of
                  Inl e \<Rightarrow> Inl e
                | Inr pts \<Rightarrow> Inr ((fromInt L (int i), price) # pts)))
      | _ \<Rightarrow> Inl IndexOutOfRange)"

text \<open>The loop that writes the lines to the bufio.Writer over the file.\<close>

fun write_loop :: "filesystem \<Rightarrow> Writer \<Rightarrow> string list \<Rightarrow> error + filesystem \<times> Writer" where
  "write_loop fs b [] = Inr (fs, b)"
| "write_loop fs b (line # rest) =
     (case Writer_WriteString fs b (line @ [CHR 0x0A]) of
        (fs1, b1, Some e) \<Rightarrow> Inl e
      | (fs1, b1, None) \<Rightarrow> write_loop fs1 b1 rest)"

text \<open>fetchPoints returns the points and leaves the file system as the last statement
  of the function left it; a panic is \<open>Inl\<close>. The writer is dropped at the return
  without a call of Flush.\<close>

definition fetchPoints ::
    "'f float64_ops \<Rightarrow> string \<Rightarrow> string \<Rightarrow> filesystem \<Rightarrow> error + ('f \<times> 'f) list \<times> filesystem" where
  "fetchPoints L symbolName fname fs =
     (case os_Open fs fname of
        Inl e \<Rightarrow> Inl e
      | Inr file \<Rightarrow>
          (let contents = scan_loop [] (ScanLines (case fs fname of None \<Rightarrow> [] | Some c \<Rightarrow> c))
           in case points_loop L 0 contents of
                Inl e \<Rightarrow> Inl e
              | Inr pts \<Rightarrow>
                  (case write_loop fs (NewWriter file) contents of
                     Inl e \<Rightarrow> Inl e
                   | Inr (fs1, b) \<Rightarrow> Inr (pts, fs1))))"

subsection \<open>Appending a sample\<close>

text \<open>time.Now() is a date of the common era, given by its fields. The layout
  "2006-01-02 15:00:00" has the elements 2006, 01, 02 and 15; the text ":00:00" after
  the hour is no element of a layout and is copied. Each element is written by
  appendInt with a width, in decimal with leading zeros. \<open>digit\<close> is applied to
  numbers below 10 only.\<close>

record Time =
  Year :: nat
  Month :: nat
  Day :: nat
  Hour :: nat

definition digit :: "nat \<Rightarrow> char" where
  "digit d = ''0123456789'' ! d"

function digits :: "nat \<Rightarrow> string" where
  "digits n = (if n < 10 then [digit n] else digits (n div 10) @ [digit (n mod 10)])"
  by pat_completeness auto
termination
  by (relation "measure id") auto

declare digits.simps [simp del]

definition appendInt :: "nat \<Rightarrow> nat \<Rightarrow> string" where
  "appendInt x width = replicate (width - length (digits x)) (CHR ''0'') @ digits x"

definition tFmt :: "Time \<Rightarrow> string" where
  "tFmt t =
     appendInt (Year t) 4 @ ''-'' @ appendInt (Month t) 2 @ ''-'' @ appendInt (Day t) 2
       @ '' '' @ appendInt (Hour t) 2 @ '':00:00''"

text \<open>The part of the loop body that persists the sample: the file name, OpenFile in
  append mode, the line, WriteString.\<close>

definition appendSample :: "'f float64_ops \<Rightarrow> filesystem \<Rightarrow> string \<Rightarrow> Time \<Rightarrow> 'f \<Rightarrow> error + filesystem" where
  "appendSample L fs key t price =
     (let fname = ''.data.'' @ key
      in case os_OpenFile_append fs fname of
           Inl e \<Rightarrow> Inl e
         | Inr (fs1, f) \<Rightarrow>
             (let lastPrice = tFmt t @ ''|'' @ Sprintf_2f L price @ [CHR 0x0A]
              in File_WriteString fs1 f lastPrice))"

section \<open>The poll loop of the chart variant\<close>

text \<open>At one iteration the environment supplies, besides the fields of the text
  variant, the reading of time.Now() while a key is handled, and what the plotting
  library does with the points of a key: it plots and saves the image, it fails to save
  (log.Fatal), or the ignored error of NewLinePoints leaves nil values whose use
  panics.\<close>

datatype plotted = Saved | SaveFailed | NilLine

record 'f chart_iteration = "'f iteration" +
  clock :: "string \<Rightarrow> Time"
  plot :: "string \<Rightarrow> ('f \<times> 'f) list \<Rightarrow> plotted"

text \<open>The body of the loop over the sorted keys, for one key: the file system after it,
  the message it sent, and how the process ended if it did.\<close>

definition pollApi_key ::
    "'f float64_ops \<Rightarrow> 'f chart_iteration \<Rightarrow> 'f Response \<Rightarrow> filesystem \<Rightarrow> string
       \<Rightarrow> filesystem \<times> event list \<times> outcome option" where
  "pollApi_key L i r fs key =
     (let v = lookup_Data r key;
          fname = ''.data.'' @ key
      in case appendSample L fs key (clock i key) (Price (lookup_Quote L v ''USD'')) of
           Inl e \<Rightarrow> (fs, [], Some (Panicked e))
         | Inr fs1 \<Rightarrow>
             (let resStr = buildPriceString L (Name v)
                             (Price (lookup_Quote L v ''USD''))
                             (PercentChange1h (lookup_Quote L v ''USD''))
                             (PercentChange24h (lookup_Quote L v ''USD''))
                             (PercentChange7d (lookup_Quote L v ''USD''))
              in case fetchPoints L (Name v) fname fs1 of
                   Inl e \<Rightarrow> (fs1, [], Some (Panicked e))
                 | Inr (pts, fs2) \<Rightarrow>
                     (case plot i key pts of
                        NilLine \<Rightarrow> (fs2, [], Some (Panicked PlotError))
                      | SaveFailed \<Rightarrow> (fs2, [], Some Exited)
                      | Saved \<Rightarrow> (fs2, [SendPhoto (key @ ''.png'') resStr], None))))"

fun pollApi_keys ::
    "'f float64_ops \<Rightarrow> 'f chart_iteration \<Rightarrow> 'f Response \<Rightarrow> filesystem \<Rightarrow> string list
       \<Rightarrow> filesystem \<times> event list \<times> outcome option" where
  "pollApi_keys L i r fs [] = (fs, [], None)"
| "pollApi_keys L i r fs (key # keys) =
     (case pollApi_key L i r fs key of
        (fs1, evs, Some out) \<Rightarrow> (fs1, evs, Some out)
      | (fs1, evs, None) \<Rightarrow>
          (case pollApi_keys L i r fs1 keys of
             (fs2, evs2, out) \<Rightarrow> (fs2, evs @ evs2, out)))"

fun pollApi_loop ::
    "'f float64_ops \<Rightarrow> filesystem \<Rightarrow> 'f chart_iteration list
       \<Rightarrow> filesystem \<times> event list \<times> outcome" where
  "pollApi_loop L fs [] = (fs, [], Running)"
| "pollApi_loop L fs (i # rest) =
     (if stop i then (fs, [WgDone], Returned)
      else (case reply i of
              DoFailed \<Rightarrow> (fs, [Get], Exited)
            | DecodeFailed \<Rightarrow> (fs, [Get], Exited)
            | Decoded r \<Rightarrow>
                (case pollApi_keys L i r fs (sort (ranged i)) of
                   (fs1, evs, Some out) \<Rightarrow> (fs1, Get # evs, out)
                 | (fs1, evs, None) \<Rightarrow>
                     (case pollApi_loop L fs1 rest of
                        (fs2, evs2, out) \<Rightarrow> (fs2, Get # evs @ Sleep 15 # evs2, out)))))"

definition pollApi ::
    "'f float64_ops \<Rightarrow> bool \<Rightarrow> filesystem \<Rightarrow> 'f chart_iteration list
       \<Rightarrow> filesystem \<times> event list \<times> outcome" where
  "pollApi L chat_resolved fs its =
     (if chat_resolved then pollApi_loop L fs its else (fs, [], Exited))"

text \<open>The number of cycles a trace holds: every cycle starts with the request.\<close>

definition cycles :: "event list \<Rightarrow> nat" where
  "cycles evs = length (filter (\<lambda>e. e = Get) evs)"

section \<open>A fixed-point stand-in for float64\<close>

text \<open>To run the definitions on concrete inputs, the operations are instantiated on
  integers that count hundredths: 150 stands for 1.50. Formatting writes the integer
  part, a point and two digits; parsing reads exactly that form back.\<close>

fun parse_digits :: "nat \<Rightarrow> string \<Rightarrow> nat option" where
  "parse_digits acc [] = Some acc"
| "parse_digits acc (c # cs) =
     (if CHR ''0'' \<le> c \<and> c \<le> CHR ''9''
      then parse_digits (10 * acc + (of_char c - 48)) cs
      else None)"

definition cents_unsigned :: "string \<Rightarrow> nat option" where
  "cents_unsigned s =
     (case strings_Split s (CHR ''.'') of
        [ip, fp] \<Rightarrow>
          (if ip = [] \<or> length fp \<noteq> 2 then None
           else (case (parse_digits 0 ip, parse_digits 0 fp) of
                   (Some a, Some b) \<Rightarrow> Some (100 * a + b)
                 | _ \<Rightarrow> None))
      | _ \<Rightarrow> None)"

definition cents_parse :: "string \<Rightarrow> int option" where
  "cents_parse s =
     (case s of
        [] \<Rightarrow> None
      | c # cs \<Rightarrow>
          (if c = CHR ''-'' then map_option (\<lambda>n. - int n) (cents_unsigned cs)
           else map_option int (cents_unsigned s)))"

definition cents_format :: "int \<Rightarrow> string" where
  "cents_format x =
     (if x < 0 then ''-'' else []) @ digits (nat \<bar>x\<bar> div 100) @ ''.''
       @ appendInt (nat \<bar>x\<bar> mod 100) 2"

definition cents_round :: "int \<Rightarrow> int" where
  "cents_round x = sgn x * (((\<bar>x\<bar> + 50) div 100) * 100)"

definition cents :: "int float64_ops" where
  "cents =
     \<lparr>fromInt = (\<lambda>i. 100 * i),
      Pow = (\<lambda>a b. 100 * (a div 100) ^ nat (b div 100)),
      Mul = (\<lambda>a b. a * b div 100),
      Quo = (\<lambda>a b. a * 100 div b),
      Round = cents_round,
      Gt = (\<lambda>a b. b < a),
      Sprintf_2f = cents_format,
      ParseFloat = cents_parse\<rparr>"

section \<open>A model of float64\<close>

text \<open>A float64 is a finite number, an infinity or NaN. The finite numbers are given by
  their values, which are rationals; the sign of zero is not modelled, and where it
  decides a result (division by zero) zero is the positive zero.\<close>

datatype float64 = Finite rat | PosInf | NegInf | NaN

text \<open>\<open>ilog2 a\<close> is the exponent of the leading bit of a positive rational: the integer
  \<open>E\<close> with \<open>2 powi E \<le> a < 2 powi (E + 1)\<close>.\<close>

function log2_up :: "rat \<Rightarrow> int" where
  "log2_up a = (if 2 \<le> a then 1 + log2_up (a / 2) else 0)"
  by pat_completeness auto
termination
proof (relation "measure (\<lambda>a. nat \<lfloor>a\<rfloor>)")
  show "wf (measure (\<lambda>a::rat. nat \<lfloor>a\<rfloor>))" by simp
next
  fix a :: rat
  assume a: "2 \<le> a"
  then have "a / 2 \<le> a - 1" by simp
  then have "\<lfloor>a / 2\<rfloor> \<le> \<lfloor>a - 1\<rfloor>" by (rule floor_mono)
  moreover have "1 \<le> \<lfloor>a\<rfloor>" using a by (simp add: le_floor_iff)
  ultimately show "(a / 2, a) \<in> measure (\<lambda>a. nat \<lfloor>a\<rfloor>)" by simp
qed

function log2_down :: "rat \<Rightarrow> int" where
  "log2_down a = (if 0 < a \<and> a < 1 then log2_down (2 * a) - 1 else 0)"
  by pat_completeness auto
termination
proof (relation "measure (\<lambda>a. nat \<lceil>1 / a\<rceil>)")
  show "wf (measure (\<lambda>a::rat. nat \<lceil>1 / a\<rceil>))" by simp
next
  fix a :: rat
  assume a: "0 < a \<and> a < 1"
  then have x: "1 < 1 / a" by simp
  then have c: "2 \<le> \<lceil>1 / a\<rceil>" by (simp add: le_ceiling_iff)
  have "1 / (2 * a) = (1 / a) / 2" by simp
  also have "\<dots> \<le> of_int \<lceil>1 / a\<rceil> / 2" by (simp add: divide_right_mono)
  also have "\<dots> \<le> of_int (\<lceil>1 / a\<rceil> - 1)" using c by simp
  finally have "\<lceil>1 / (2 * a)\<rceil> \<le> \<lceil>1 / a\<rceil> - 1" by (simp only: ceiling_le_iff)
  with c a show "(2 * a, a) \<in> measure (\<lambda>a. nat \<lceil>1 / a\<rceil>)" by auto
qed

declare log2_up.simps [simp del] log2_down.simps [simp del]

definition ilog2 :: "rat \<Rightarrow> int" where
  "ilog2 a = (if 1 \<le> a then log2_up a else log2_down a)"

text \<open>Rounding to an integer: ties to the even neighbour, which is the rounding of the
  arithmetic, and ties away from zero, which is math.Round.\<close>

definition round_half_even :: "rat \<Rightarrow> int" where
  "round_half_even x =
     (let f = \<lfloor>x\<rfloor>; d = x - of_int f
      in if d < 1 / 2 then f else if 1 / 2 < d then f + 1 else if even f then f else f + 1)"

definition round_half_away :: "rat \<Rightarrow> int" where
  "round_half_away x = (if 0 \<le> x then \<lfloor>x + 1 / 2\<rfloor> else - \<lfloor>- x + 1 / 2\<rfloor>)"

text \<open>\<open>toFloat64\<close> rounds a rational to the nearest float64, ties to even. The
  significand has 53 bits, so the last place has the exponent \<open>ilog2 \<bar>q\<bar> - 52\<close>, and
  not less than -1074, the last place of the subnormal numbers. A rounded value of
  2 to the power 1024 or more is an infinity.\<close>

definition toFloat64 :: "rat \<Rightarrow> float64" where
  "toFloat64 q =
     (if q = 0 then Finite 0
      else (let e = max (ilog2 \<bar>q\<bar> - 52) (- 1074);
                v = of_int (round_half_even (\<bar>q\<bar> / 2 powi e)) * 2 powi e
            in if 2 ^ 1024 \<le> v then (if 0 < q then PosInf else NegInf)
               else Finite (sgn q * v)))"

text \<open>The operators * and / round the exact product and quotient; the special values
  follow IEEE 754. math.Round is exact. The operator > is false on NaN.\<close>

fun f64_Mul :: "float64 \<Rightarrow> float64 \<Rightarrow> float64" where
  "f64_Mul NaN y = NaN"
| "f64_Mul x NaN = NaN"
| "f64_Mul (Finite x) (Finite y) = toFloat64 (x * y)"
| "f64_Mul (Finite x) PosInf = (if x = 0 then NaN else if 0 < x then PosInf else NegInf)"
| "f64_Mul (Finite x) NegInf = (if x = 0 then NaN else if 0 < x then NegInf else PosInf)"
| "f64_Mul PosInf (Finite y) = (if y = 0 then NaN else if 0 < y then PosInf else NegInf)"
| "f64_Mul NegInf (Finite y) = (if y = 0 then NaN else if 0 < y then NegInf else PosInf)"
| "f64_Mul PosInf PosInf = PosInf"
| "f64_Mul PosInf NegInf = NegInf"
| "f64_Mul NegInf PosInf = NegInf"
| "f64_Mul NegInf NegInf = PosInf"

fun f64_Quo :: "float64 \<Rightarrow> float64 \<Rightarrow> float64" where
  "f64_Quo NaN y = NaN"
| "f64_Quo x NaN = NaN"
| "f64_Quo (Finite x) (Finite y) =
     (if y = 0 then (if x = 0 then NaN else if 0 < x then PosInf else NegInf)
      else toFloat64 (x / y))"
| "f64_Quo (Finite x) PosInf = Finite 0"
| "f64_Quo (Finite x) NegInf = Finite 0"
| "f64_Quo PosInf (Finite y) = (if 0 \<le> y then PosInf else NegInf)"
| "f64_Quo NegInf (Finite y) = (if 0 \<le> y then NegInf else PosInf)"
| "f64_Quo PosInf PosInf = NaN"
| "f64_Quo PosInf NegInf = NaN"
| "f64_Quo NegInf PosInf = NaN"
| "f64_Quo NegInf NegInf = NaN"

fun f64_Round :: "float64 \<Rightarrow> float64" where
  "f64_Round (Finite x) = Finite (of_int (round_half_away x))"
| "f64_Round x = x"

fun f64_Gt :: "float64 \<Rightarrow> float64 \<Rightarrow> bool" where
  "f64_Gt (Finite x) (Finite y) = (y < x)"
| "f64_Gt PosInf (Finite y) = True"
| "f64_Gt PosInf NegInf = True"
| "f64_Gt (Finite x) NegInf = True"
| "f64_Gt x y = False"

text \<open>math.Pow is not modelled in general: the float64 operations take it as the
  parameter \<open>pw\<close>, and the statements about roundToPrecision use one fact about it,
  math.Pow(10, 2) = 100. To run roundToPrecision on concrete inputs, \<open>f64_Pow\<close> is the
  rounded power for a finite base and a natural exponent, and \<open>float64_run\<close> is the
  record with \<open>f64_Pow\<close> whose formatting and parsing fields, which roundToPrecision
  does not call, are left empty.\<close>

definition f64_Pow :: "float64 \<Rightarrow> float64 \<Rightarrow> float64" where
  "f64_Pow x y =
     (case (x, y) of
        (Finite a, Finite b) \<Rightarrow>
          (if 0 \<le> b \<and> of_int \<lfloor>b\<rfloor> = b then toFloat64 (a ^ nat \<lfloor>b\<rfloor>) else NaN)
      | _ \<Rightarrow> NaN)"

definition float64_arith ::
    "(float64 \<Rightarrow> float64 \<Rightarrow> float64) \<Rightarrow> (float64 \<Rightarrow> string) \<Rightarrow> (string \<Rightarrow> float64 option)
       \<Rightarrow> float64 float64_ops" where
  "float64_arith pw fmt ps =
     \<lparr>fromInt = (\<lambda>i. toFloat64 (of_int i)), Pow = pw, Mul = f64_Mul, Quo = f64_Quo,
      Round = f64_Round, Gt = f64_Gt, Sprintf_2f = fmt, ParseFloat = ps\<rparr>"

definition float64_run :: "float64 float64_ops" where
  "float64_run = float64_arith f64_Pow (\<lambda>x. []) (\<lambda>s. None)"

section \<open>Notions of the specification\<close>

text \<open>The lines fetchPoints retains from the bytes of a file; a line that has the
  separator and a parsable second field, with the price it carries; and the number of
  bytes the retained lines take when each is written with its newline.\<close>

definition retained :: "string \<Rightarrow> string list" where
  "retained c = scan_loop [] (ScanLines c)"

definition line_price :: "'f float64_ops \<Rightarrow> string \<Rightarrow> 'f option" where
  "line_price L l =
     (case strings_Split l (CHR ''|'') of
        d0 # d1 # ds \<Rightarrow> ParseFloat L d1
      | _ \<Rightarrow> None)"

definition well_formed_line :: "'f float64_ops \<Rightarrow> string \<Rightarrow> bool" where
  "well_formed_line L l = (line_price L l \<noteq> None)"

definition written_bytes :: "string list \<Rightarrow> nat" where
  "written_bytes ls = length (concat (map (\<lambda>l. l @ [CHR 0x0A]) ls))"

text \<open>A history file as the program writes it: lines, each ended by a newline.\<close>

definition file_of_lines :: "string list \<Rightarrow> string" where
  "file_of_lines ls = concat (map (\<lambda>l. l @ [CHR 0x0A]) ls)"

section \<open>Sample inputs\<close>

text \<open>Responses, iterations and history files on which the definitions are run, over
  the fixed-point stand-in. \<open>history101\<close> is a file of 101 lines; \<open>history_big\<close> is a
  file of 100 lines in the program's own format whose price is 10 to the power 20, so
  that each line takes 45 bytes with its newline.\<close>

definition three_assets :: "int Response" where
  "three_assets =
     \<lparr>Status = \<lparr>ErrorCode = 0, ErrorMessage = None\<rparr>,
      Data = [''1027'' \<mapsto> \<lparr>Name = ''Ethereum'', Quotes = Map.empty\<rparr>,
              ''5426'' \<mapsto> \<lparr>Name = ''Solana'', Quotes = Map.empty\<rparr>,
              ''34625'' \<mapsto> \<lparr>Name = ''Pip'', Quotes = Map.empty\<rparr>]\<rparr>"

definition one_asset :: "int Response" where
  "one_asset =
     \<lparr>Status = \<lparr>ErrorCode = 0, ErrorMessage = None\<rparr>,
      Data = [''1027'' \<mapsto>
               \<lparr>Name = ''Ethereum'',
                Quotes = [''USD'' \<mapsto> \<lparr>Price = 250012, PercentChange1h = 15,
                                      PercentChange24h = - 230, PercentChange7d = 0\<rparr>]\<rparr>]\<rparr>"

definition text_run :: "int iteration" where
  "text_run = \<lparr>stop = False, reply = Decoded one_asset, ranged = [''1027'']\<rparr>"

definition text_stop :: "int iteration" where
  "text_stop = \<lparr>stop = True, reply = Decoded one_asset, ranged = [''1027'']\<rparr>"

definition chart_run :: "int chart_iteration" where
  "chart_run =
     \<lparr>stop = False, reply = Decoded one_asset, ranged = [''1027''],
      clock = (\<lambda>key. \<lparr>Year = 2024, Month = 3, Day = 9, Hour = 17\<rparr>),
      plot = (\<lambda>key pts. Saved)\<rparr>"

definition chart_stop :: "int chart_iteration" where
  "chart_stop = chart_run\<lparr>stop := True\<rparr>"

definition old_line :: string where
  "old_line = ''2023-12-31 23:00:00|9.99''"

definition new_line :: string where
  "new_line = ''2024-01-01 10:00:00|1.50''"

definition history101 :: string where
  "history101 = file_of_lines (old_line # replicate 100 new_line)"

definition big_line :: string where
  "big_line = ''2024-01-01 10:00:00|100000000000000000000.00''"

definition history_big :: string where
  "history_big = file_of_lines (replicate 100 big_line)"

section \<open>Lemmas about the loops and the library models\<close>

lemma fold_builder: "fold (\<lambda>key resStr. resStr @ g key) ks acc = acc @ concat (map g ks)"
  by (induction ks arbitrary: acc) simp_all

lemma format_cycle_concat: "format_cycle L r ks = concat (map (asset_block L r) (sort ks))"
  by (simp add: format_cycle_def fold_builder)

lemma sort_ranges_over: "ranges_over ks m \<Longrightarrow> sort ks = sorted_list_of_set (dom m)"
  unfolding ranges_over_def
  by (metis distinct_remdups_id sorted_list_of_set_sort_remdups)

lemma scan_loop_drop:
  "length cs \<le> 100 \<Longrightarrow> scan_loop cs ls = drop (length cs + length ls - 100) (cs @ ls)"
proof (induction ls arbitrary: cs)
  case Nil
  then show ?case by simp
next
  case (Cons l ls)
  show ?case
  proof (cases "100 \<le> length cs")
    case True
    with Cons.prems have len: "length cs = 100" by simp
    then obtain x xs where cs: "cs = x # xs" by (cases cs) auto
    with len have "length (xs @ [l]) \<le> 100" by simp
    from Cons.IH [OF this] show ?thesis using len cs by simp
  next
    case False
    then have "length (cs @ [l]) \<le> 100" by simp
    from Cons.IH [OF this] show ?thesis using False by simp
  qed
qed

lemma retained_drop: "retained c = drop (length (ScanLines c) - 100) (ScanLines c)"
  by (simp add: retained_def scan_loop_drop)

lemma length_retained: "length (retained c) = min (length (ScanLines c)) 100"
  by (simp add: retained_drop)

lemma split_fields_nosep: "sep \<notin> set s \<Longrightarrow> split_fields sep cur s = [cur @ s]"
  by (induction s arbitrary: cur) auto

lemma split_fields_sep:
  "sep \<notin> set a \<Longrightarrow> split_fields sep cur (a @ sep # b) = (cur @ a) # split_fields sep [] b"
  by (induction a arbitrary: cur) auto

lemma split_fields_not_Nil: "split_fields sep cur s \<noteq> []"
  by (induction s arbitrary: cur) simp_all

lemma scan_tokens_line:
  "CHR 0x0A \<notin> set l \<Longrightarrow> length (cur @ l) < MaxScanTokenSize \<Longrightarrow>
   scan_tokens cur (l @ CHR 0x0A # rest) = dropCR (cur @ l) # scan_tokens [] rest"
  by (induction l arbitrary: cur) auto

lemma ScanLines_file_of_lines:
  "\<forall>l\<in>set ls. CHR 0x0A \<notin> set l \<and> length l < MaxScanTokenSize \<Longrightarrow>
   ScanLines (file_of_lines ls) = map dropCR ls"
  unfolding ScanLines_def file_of_lines_def
proof (induction ls)
  case Nil
  then show ?case by simp
next
  case (Cons l ls)
  then show ?case using scan_tokens_line [of l "[]"] by simp
qed


lemma Split_two_iff:
  "(\<exists>d0 d1 ds. strings_Split l sep = d0 # d1 # ds) \<longleftrightarrow> sep \<in> set l"
proof
  assume two: "\<exists>d0 d1 ds. strings_Split l sep = d0 # d1 # ds"
  show "sep \<in> set l"
  proof (rule ccontr)
    assume "sep \<notin> set l"
    then have "strings_Split l sep = [l]"
      by (simp add: strings_Split_def split_fields_nosep)
    with two show False by simp
  qed
next
  assume "sep \<in> set l"
  then obtain a b where l: "l = a @ sep # b" and a: "sep \<notin> set a"
    by (auto dest: split_list_first)
  obtain x xs where "split_fields sep [] b = x # xs"
    using split_fields_not_Nil [of sep "[]" b] by (cases "split_fields sep [] b") auto
  with l a show "\<exists>d0 d1 ds. strings_Split l sep = d0 # d1 # ds"
    by (simp add: strings_Split_def split_fields_sep)
qed

lemma well_formed_line_sep: "well_formed_line L l \<Longrightarrow> CHR ''|'' \<in> set l"
  using Split_two_iff [of l "CHR ''|''"]
  by (auto simp: well_formed_line_def line_price_def split: list.splits)

lemma points_loop_step:
  "points_loop L i (l # rest) =
     (if CHR ''|'' \<notin> set l then Inl IndexOutOfRange
      else (case line_price L l of
              None \<Rightarrow> Inl ParseError
            | Some price \<Rightarrow>
                (case points_loop L (Suc i) rest of
                   Inl e \<Rightarrow> Inl e
                 | Inr pts \<Rightarrow> Inr ((fromInt L (int i), price) # pts))))"
  using Split_two_iff [of l "CHR ''|''"]
  by (auto simp: line_price_def split: list.splits option.splits sum.splits)

lemma points_loop_well_formed:
  "list_all (well_formed_line L) ls \<Longrightarrow>
   \<exists>pts. points_loop L i ls = Inr pts
     \<and> map fst pts = map (\<lambda>k. fromInt L (int k)) [i..<i + length ls]
     \<and> map (\<lambda>p. Some (snd p)) pts = map (line_price L) ls"
proof (induction ls arbitrary: i)
  case Nil
  then show ?case by simp
next
  case (Cons l ls)
  then have wf: "well_formed_line L l" and rest: "list_all (well_formed_line L) ls" by simp_all
  from wf obtain y where y: "line_price L l = Some y" by (auto simp: well_formed_line_def)
  from Cons.IH [OF rest, of "Suc i"] obtain pts where
    pts: "points_loop L (Suc i) ls = Inr pts"
      "map fst pts = map (\<lambda>k. fromInt L (int k)) [Suc i..<Suc i + length ls]"
      "map (\<lambda>p. Some (snd p)) pts = map (line_price L) ls"
    by blast
  have "[i..<i + Suc (length ls)] = i # [Suc i..<Suc (i + length ls)]"
    using upt_conv_Cons [of i "i + Suc (length ls)"] by simp
  with y pts wf show ?case
    by (simp add: points_loop_step well_formed_line_sep del: points_loop.simps)
qed

lemma points_loop_Inr_well_formed:
  "points_loop L i ls = Inr pts \<Longrightarrow> list_all (well_formed_line L) ls"
proof (induction ls arbitrary: i pts)
  case Nil
  then show ?case by simp
next
  case (Cons l ls)
  from Cons.prems show ?case
    by (auto simp: points_loop_step well_formed_line_def simp del: points_loop.simps
          split: if_splits option.splits sum.splits dest: Cons.IH)
qed

lemma points_loop_no_separator:
  "list_all (well_formed_line L) pre \<Longrightarrow> CHR ''|'' \<notin> set l \<Longrightarrow>
   points_loop L i (pre @ l # post) = Inl IndexOutOfRange"
proof (induction pre arbitrary: i)
  case Nil
  then show ?case by (simp add: points_loop_step del: points_loop.simps)
next
  case (Cons p pre)
  then have wf: "well_formed_line L p" by simp
  then obtain y where "line_price L p = Some y" by (auto simp: well_formed_line_def)
  with Cons wf show ?case
    by (simp add: points_loop_step well_formed_line_sep del: points_loop.simps)
qed

lemma Writer_WriteString_readonly:
  "\<not> writable (wr b) \<Longrightarrow> err b = None \<Longrightarrow> length (buf b) \<le> defaultBufSize \<Longrightarrow>
   Writer_WriteString fs b s =
     (if length (buf b) + length s \<le> defaultBufSize
      then (fs, b\<lparr>buf := buf b @ s\<rparr>, None)
      else if buf b = [] then (fs, b\<lparr>err := Some EBADF\<rparr>, Some EBADF)
      else (fs, b\<lparr>buf := buf b @ take (defaultBufSize - length (buf b)) s, err := Some EBADF\<rparr>,
            Some EBADF))"
  by (auto simp: Writer_WriteString_def File_WriteString_def Let_def)

lemma write_loop_readonly:
  "\<not> writable (wr b) \<Longrightarrow> err b = None \<Longrightarrow> length (buf b) \<le> defaultBufSize \<Longrightarrow>
   write_loop fs b ls =
     (if length (buf b) + written_bytes ls \<le> defaultBufSize
      then Inr (fs, b\<lparr>buf := buf b @ file_of_lines ls\<rparr>)
      else Inl EBADF)"
proof (induction ls arbitrary: b)
  case Nil
  then show ?case by (simp add: written_bytes_def file_of_lines_def)
next
  case (Cons l ls)
  let ?s = "l @ [CHR 0x0A]"
  show ?case
  proof (cases "length (buf b) + length ?s \<le> defaultBufSize")
    case True
    let ?b = "b\<lparr>buf := buf b @ ?s\<rparr>"
    have "\<not> writable (wr ?b)" "err ?b = None" "length (buf ?b) \<le> defaultBufSize"
      using Cons.prems True by simp_all
    from Cons.IH [OF this] True Cons.prems show ?thesis
      by (simp add: Writer_WriteString_readonly written_bytes_def file_of_lines_def)
  next
    case False
    with Cons.prems show ?thesis
      by (simp add: Writer_WriteString_readonly written_bytes_def)
  qed
qed

lemma fetchPoints_eq:
  "fs fname = Some c \<Longrightarrow>
   fetchPoints L symbolName fname fs =
     (case points_loop L 0 (retained c) of
        Inl e \<Rightarrow> Inl e
      | Inr pts \<Rightarrow>
          if written_bytes (retained c) \<le> defaultBufSize then Inr (pts, fs) else Inl EBADF)"
  by (simp add: fetchPoints_def os_Open_def retained_def [symmetric] write_loop_readonly
        NewWriter_def split: sum.splits)

lemma fetchPoints_missing: "fs fname = None \<Longrightarrow> fetchPoints L symbolName fname fs = Inl ENOENT"
  by (simp add: fetchPoints_def os_Open_def)

lemma fetchPoints_keeps_files:
  "fetchPoints L symbolName fname fs = Inr (pts, fs1) \<Longrightarrow> fs1 = fs"
  by (cases "fs fname") (auto simp: fetchPoints_missing fetchPoints_eq split: sum.splits if_splits)

subsection \<open>The poll loops\<close>

lemma sort_same_keys:
  "ranges_over ks1 m \<Longrightarrow> ranges_over ks2 m \<Longrightarrow> sort ks1 = sort ks2"
  by (simp add: sort_ranges_over)

lemma text_loop_stop:
  "snd (pollApi_text_loop L pre) = Running \<Longrightarrow> stop s \<Longrightarrow>
   pollApi_text_loop L (pre @ s # post) = (fst (pollApi_text_loop L pre) @ [WgDone], Returned)"
proof (induction pre)
  case Nil
  then show ?case by simp
next
  case (Cons i pre)
  then show ?case
    by (cases "reply i") (auto split: if_splits prod.splits)
qed

lemma text_loop_cycles:
  "snd (pollApi_text_loop L pre) = Running \<Longrightarrow> cycles (fst (pollApi_text_loop L pre)) = length pre"
proof (induction pre)
  case Nil
  then show ?case by (simp add: cycles_def)
next
  case (Cons i pre)
  then show ?case
    by (cases "reply i") (auto simp: cycles_def split: if_splits prod.splits)
qed

lemma pollApi_key_no_Get: "Get \<notin> set (fst (snd (pollApi_key L i r fs key)))"
  by (auto simp: pollApi_key_def Let_def split: sum.splits plotted.splits prod.splits)

lemma pollApi_key_not_Running: "snd (snd (pollApi_key L i r fs key)) \<noteq> Some Running"
  by (auto simp: pollApi_key_def Let_def split: sum.splits plotted.splits prod.splits)

lemma pollApi_keys_no_Get: "Get \<notin> set (fst (snd (pollApi_keys L i r fs keys)))"
proof (induction keys arbitrary: fs)
  case Nil
  then show ?case by simp
next
  case (Cons key keys)
  obtain fs1 evs out where k: "pollApi_key L i r fs key = (fs1, evs, out)"
    by (cases "pollApi_key L i r fs key") auto
  with pollApi_key_no_Get [of L i r fs key] have evs: "Get \<notin> set evs" by simp
  show ?case
  proof (cases out)
    case None
    obtain fs2 evs2 out2 where k2: "pollApi_keys L i r fs1 keys = (fs2, evs2, out2)"
      by (cases "pollApi_keys L i r fs1 keys") auto
    with Cons.IH [of fs1] have "Get \<notin> set evs2" by simp
    with k None k2 evs show ?thesis by simp
  next
    case (Some h)
    with k evs show ?thesis by simp
  qed
qed

lemma pollApi_keys_not_Running: "snd (snd (pollApi_keys L i r fs keys)) \<noteq> Some Running"
proof (induction keys arbitrary: fs)
  case Nil
  then show ?case by simp
next
  case (Cons key keys)
  obtain fs1 evs out where k: "pollApi_key L i r fs key = (fs1, evs, out)"
    by (cases "pollApi_key L i r fs key") auto
  with pollApi_key_not_Running [of L i r fs key] have out: "out \<noteq> Some Running" by simp
  show ?case
  proof (cases out)
    case None
    obtain fs2 evs2 out2 where k2: "pollApi_keys L i r fs1 keys = (fs2, evs2, out2)"
      by (cases "pollApi_keys L i r fs1 keys") auto
    with Cons.IH [of fs1] have "out2 \<noteq> Some Running" by simp
    with k None k2 show ?thesis by simp
  next
    case (Some h)
    with k out show ?thesis by simp
  qed
qed

text \<open>One iteration of the chart loop that does not end the run.\<close>

lemma chart_loop_Cons_Running:
  assumes "snd (snd (pollApi_loop L fs (i # pre))) = Running"
  obtains r fs1 evs where "\<not> stop i" and "reply i = Decoded r"
    and "pollApi_keys L i r fs (sort (ranged i)) = (fs1, evs, None)"
    and "snd (snd (pollApi_loop L fs1 pre)) = Running"
    and "pollApi_loop L fs (i # pre)
           = (fst (pollApi_loop L fs1 pre),
              Get # evs @ Sleep 15 # fst (snd (pollApi_loop L fs1 pre)), Running)"
proof -
  from assms have ns: "\<not> stop i" by (auto split: if_splits)
  from assms ns obtain r where r: "reply i = Decoded r"
    by (cases "reply i") auto
  obtain fs1 evs out where k: "pollApi_keys L i r fs (sort (ranged i)) = (fs1, evs, out)"
    by (cases "pollApi_keys L i r fs (sort (ranged i))") auto
  with pollApi_keys_not_Running [of L i r fs "sort (ranged i)"] have nr: "out \<noteq> Some Running"
    by simp
  from assms ns r k nr have none: "out = None"
    by (cases out) auto
  obtain fs2 evs2 out2 where l: "pollApi_loop L fs1 pre = (fs2, evs2, out2)"
    by (cases "pollApi_loop L fs1 pre") auto
  from assms ns r k none l have "out2 = Running" by simp
  with ns r k none l that show thesis by simp
qed

lemma chart_loop_stop:
  "snd (snd (pollApi_loop L fs pre)) = Running \<Longrightarrow> stop c \<Longrightarrow>
   pollApi_loop L fs (pre @ c # post)
     = (fst (pollApi_loop L fs pre), fst (snd (pollApi_loop L fs pre)) @ [WgDone], Returned)"
proof (induction pre arbitrary: fs)
  case Nil
  then show ?case by simp
next
  case (Cons i pre)
  from Cons.prems(1) obtain r fs1 evs where
    step: "\<not> stop i" "reply i = Decoded r"
      "pollApi_keys L i r fs (sort (ranged i)) = (fs1, evs, None)"
      "snd (snd (pollApi_loop L fs1 pre)) = Running"
      "pollApi_loop L fs (i # pre)
           = (fst (pollApi_loop L fs1 pre),
              Get # evs @ Sleep 15 # fst (snd (pollApi_loop L fs1 pre)), Running)"
    by (rule chart_loop_Cons_Running)
  from Cons.IH [OF step(4) Cons.prems(2)] step show ?case by simp
qed

lemma chart_loop_cycles:
  "snd (snd (pollApi_loop L fs pre)) = Running \<Longrightarrow>
   cycles (fst (snd (pollApi_loop L fs pre))) = length pre"
proof (induction pre arbitrary: fs)
  case Nil
  then show ?case by (simp add: cycles_def)
next
  case (Cons i pre)
  from Cons.prems(1) obtain r fs1 evs where
    step: "\<not> stop i" "reply i = Decoded r"
      "pollApi_keys L i r fs (sort (ranged i)) = (fs1, evs, None)"
      "snd (snd (pollApi_loop L fs1 pre)) = Running"
      "pollApi_loop L fs (i # pre)
           = (fst (pollApi_loop L fs1 pre),
              Get # evs @ Sleep 15 # fst (snd (pollApi_loop L fs1 pre)), Running)"
    by (rule chart_loop_Cons_Running)
  from pollApi_keys_no_Get [of L i r fs "sort (ranged i)"] step(3)
  have "filter (\<lambda>e. e = Get) evs = []"
    by (auto simp: filter_empty_conv)
  with Cons.IH [OF step(4)] step(5) show ?case by (simp add: cycles_def)
qed

subsection \<open>The timestamp and the appended line\<close>

lemma appendSample_eq:
  "appendSample L fs key t price =
     Inr (fs(''.data.'' @ key \<mapsto>
            (case fs (''.data.'' @ key) of None \<Rightarrow> [] | Some c \<Rightarrow> c)
              @ tFmt t @ ''|'' @ Sprintf_2f L price @ ''\<newline>''))"
  by (simp add: appendSample_def os_OpenFile_append_def File_WriteString_def Let_def
        split: option.splits)

lemma digit_in_digits: "d < 10 \<Longrightarrow> digit d \<in> set ''0123456789''"
  unfolding digit_def by (rule nth_mem) simp

lemma set_digits: "set (digits n) \<subseteq> set ''0123456789''"
proof (induction n rule: digits.induct)
  case (1 n)
  show ?case
  proof (cases "n < 10")
    case True
    then show ?thesis using digit_in_digits [of n] by (subst digits.simps) simp
  next
    case False
    with 1 have "set (digits (n div 10)) \<subseteq> set ''0123456789''" by simp
    moreover have "digit (n mod 10) \<in> set ''0123456789''"
      by (rule digit_in_digits) simp
    ultimately show ?thesis using False by (subst digits.simps) simp
  qed
qed

lemma set_appendInt: "set (appendInt x w) \<subseteq> set ''0123456789''"
  using set_digits [of x] by (auto simp: appendInt_def)

lemma length_digits_1: "n < 10 \<Longrightarrow> length (digits n) = 1"
  by (subst digits.simps) simp

lemma length_digits_2: "n < 100 \<Longrightarrow> length (digits n) \<le> 2"
proof -
  assume "n < 100"
  then have "n div 10 < 10" by simp
  then have "length (digits (n div 10)) = 1" by (rule length_digits_1)
  then show ?thesis by (subst digits.simps) (simp add: length_digits_1)
qed

lemma length_digits_4: "n < 10000 \<Longrightarrow> length (digits n) \<le> 4"
proof -
  assume n: "n < 10000"
  show ?thesis
  proof (cases "n < 10")
    case True
    then show ?thesis by (simp add: length_digits_1)
  next
    case False
    from n have "n div 10 < 1000" by simp
    show ?thesis
    proof (cases "n div 10 < 10")
      case True
      with False show ?thesis by (subst digits.simps) (simp add: length_digits_1)
    next
      case f2: False
      from n have "n div 10 div 10 < 100" by simp
      then have "length (digits (n div 10 div 10)) \<le> 2" by (rule length_digits_2)
      then have "length (digits (n div 10)) \<le> 3"
        using f2 by (subst digits.simps) simp
      with False show ?thesis by (subst digits.simps) simp
    qed
  qed
qed

lemma length_appendInt: "length (digits x) \<le> w \<Longrightarrow> length (appendInt x w) = w"
  by (simp add: appendInt_def)

lemma tFmt_chars:
  "CHR ''\<newline>'' \<notin> set (tFmt t)" "CHR ''|'' \<notin> set (tFmt t)" "CHR 0x0D \<notin> set (tFmt t)"
  using set_appendInt [of "Year t" 4] set_appendInt [of "Month t" 2]
    set_appendInt [of "Day t" 2] set_appendInt [of "Hour t" 2]
  by (auto simp: tFmt_def)

lemma file_of_lines_snoc: "file_of_lines (ls @ [l]) = file_of_lines ls @ l @ ''\<newline>''"
  by (simp add: file_of_lines_def)

lemma line_price_sample:
  assumes "CHR ''|'' \<notin> set s"
  shows "line_price L (tFmt t @ CHR ''|'' # s) = ParseFloat L s"
proof -
  have "split_fields (CHR ''|'') [] (tFmt t @ CHR ''|'' # s) = ([] @ tFmt t) # split_fields (CHR ''|'') [] s"
    using tFmt_chars(2) by (rule split_fields_sep)
  with assms show ?thesis
    by (simp add: line_price_def strings_Split_def split_fields_nosep)
qed

lemma dropCR_sample: "CHR 0x0D \<notin> set s \<Longrightarrow> dropCR (t @ CHR ''|'' # s) = t @ CHR ''|'' # s"
  by (cases s rule: rev_cases) (auto simp: dropCR_def)

subsection \<open>What fetchPoints returns while the lines fit the writer's buffer\<close>

text \<open>When every retained line is well formed and the retained lines, each with its
  newline, take no more than defaultBufSize bytes, fetchPoints returns one point for each
  of the last min(n, 100) lines, in the order of the file: X is the index of the line
  among the retained ones and Y its parsed price. The file system is returned as it
  was.\<close>

lemma points_loop_replicate:
  "line_price L l = Some y \<Longrightarrow>
   points_loop L i (replicate n l) = Inr (map (\<lambda>k. (fromInt L (int k), y)) [i..<i + n])"
proof (induction n arbitrary: i)
  case 0
  then show ?case by simp
next
  case (Suc n)
  from Suc.prems have "well_formed_line L l" by (simp add: well_formed_line_def)
  then have sep: "CHR ''|'' \<in> set l" by (rule well_formed_line_sep)
  have "[i..<i + Suc n] = i # [Suc i..<Suc i + n]"
    using upt_conv_Cons [of i "i + Suc n"] by simp
  with Suc.IH [OF Suc.prems, of "Suc i"] Suc.prems sep show ?case
    by (simp add: points_loop_step del: points_loop.simps)
qed

lemma written_bytes_replicate: "written_bytes (replicate n l) = n * Suc (length l)"
  by (induction n) (simp_all add: written_bytes_def)

lemma fetchPoints_series:
  assumes "fs fname = Some c"
    and "list_all (well_formed_line L) (retained c)"
    and "written_bytes (retained c) \<le> defaultBufSize"
  shows "\<exists>pts. fetchPoints L symbolName fname fs = Inr (pts, fs)
     \<and> length pts = min (length (ScanLines c)) 100
     \<and> map fst pts = map (\<lambda>k. fromInt L (int k)) [0..<length pts]
     \<and> map (\<lambda>p. Some (snd p)) pts = map (line_price L) (retained c)
     \<and> retained c = drop (length (ScanLines c) - 100) (ScanLines c)"
proof -
  from points_loop_well_formed [OF assms(2), of 0] obtain pts where
    pts: "points_loop L 0 (retained c) = Inr pts"
      "map fst pts = map (\<lambda>k. fromInt L (int k)) [0..<0 + length (retained c)]"
      "map (\<lambda>p. Some (snd p)) pts = map (line_price L) (retained c)"
    by blast
  from pts(3) have "length pts = length (retained c)"
    by (metis length_map)
  with pts assms(1,3) show ?thesis
    by (simp add: fetchPoints_eq length_retained retained_drop [symmetric])
qed

text \<open>Under the same bound, a sample appended to a well-formed history file is the
  last point of the series read next.\<close>

lemma append_then_fetch:
  assumes prior: "(case fs (''.data.'' @ key) of None \<Rightarrow> [] | Some c \<Rightarrow> c) = file_of_lines ls"
    and lines: "\<forall>l\<in>set ls. CHR ''\<newline>'' \<notin> set l \<and> length l < MaxScanTokenSize"
    and wf: "list_all (well_formed_line L) (map dropCR ls)"
    and chars: "CHR ''\<newline>'' \<notin> set (Sprintf_2f L p)" "CHR ''|'' \<notin> set (Sprintf_2f L p)"
      "CHR 0x0D \<notin> set (Sprintf_2f L p)"
    and short: "length (tFmt t @ ''|'' @ Sprintf_2f L p) < MaxScanTokenSize"
    and parse: "ParseFloat L (Sprintf_2f L p) = Some y"
    and fit: "written_bytes (retained (file_of_lines (ls @ [tFmt t @ ''|'' @ Sprintf_2f L p])))
                \<le> defaultBufSize"
  shows "\<exists>fs1 pts. appendSample L fs key t p = Inr fs1
     \<and> fetchPoints L symbolName (''.data.'' @ key) fs1 = Inr (pts, fs1)
     \<and> pts \<noteq> [] \<and> snd (last pts) = y"
proof -
  define line where "line = tFmt t @ ''|'' @ Sprintf_2f L p"
  define c where "c = file_of_lines (ls @ [line])"
  define fs1 where "fs1 = fs(''.data.'' @ key \<mapsto> c)"
  have app: "appendSample L fs key t p = Inr fs1"
    using prior by (simp add: appendSample_eq file_of_lines_snoc fs1_def c_def line_def)
  have "\<forall>l\<in>set (ls @ [line]). CHR ''\<newline>'' \<notin> set l \<and> length l < MaxScanTokenSize"
    using lines chars(1) short tFmt_chars(1) by (auto simp: line_def)
  then have "ScanLines c = map dropCR (ls @ [line])"
    unfolding c_def by (rule ScanLines_file_of_lines)
  moreover have "dropCR line = line"
    using chars(3) by (simp add: line_def dropCR_sample)
  ultimately have scan: "ScanLines c = map dropCR ls @ [line]"
    by simp
  have price: "line_price L line = Some y"
    using chars(2) parse by (simp add: line_def line_price_sample)
  then have "list_all (well_formed_line L) (ScanLines c)"
    using wf by (simp add: scan well_formed_line_def)
  then have wfr: "list_all (well_formed_line L) (retained c)"
    unfolding retained_drop list_all_iff by (auto dest: in_set_dropD)
  have ne: "retained c \<noteq> []"
    by (simp add: retained_drop scan)
  have "length (map dropCR ls @ [line]) - 100 < length (map dropCR ls @ [line])"
    by simp
  then have "last (drop (length (map dropCR ls @ [line]) - 100) (map dropCR ls @ [line]))
               = last (map dropCR ls @ [line])"
    by (rule last_drop)
  then have lst: "last (retained c) = line"
    by (simp add: retained_drop scan)
  have fit': "written_bytes (retained c) \<le> defaultBufSize"
    using fit by (simp add: c_def line_def)
  have here: "fs1 (''.data.'' @ key) = Some c" by (simp add: fs1_def)
  from fetchPoints_series [of fs1 "''.data.'' @ key" c L symbolName, OF here wfr fit']
  obtain pts where
    pts: "fetchPoints L symbolName (''.data.'' @ key) fs1 = Inr (pts, fs1)"
      "map (\<lambda>p. Some (snd p)) pts = map (line_price L) (retained c)"
    by blast
  from pts(2) ne have pne: "pts \<noteq> []" by auto
  from pts(2) have "last (map (\<lambda>p. Some (snd p)) pts) = last (map (line_price L) (retained c))"
    by simp
  with pne ne have "Some (snd (last pts)) = line_price L (last (retained c))"
    by (simp add: last_map)
  with lst price have "snd (last pts) = y" by simp
  with app pts(1) pne show ?thesis by blast
qed

subsection \<open>Evaluations on the sample inputs\<close>

lemma tFmt_evening:
  "tFmt \<lparr>Year = 2024, Month = 3, Day = 9, Hour = 17\<rparr> = ''2024-03-09 17:00:00''"
  by (simp add: tFmt_def appendInt_def digit_def digits.simps)

lemma tFmt_new_year:
  "tFmt \<lparr>Year = 2024, Month = 1, Day = 1, Hour = 10\<rparr> = ''2024-01-01 10:00:00''"
  by (simp add: tFmt_def appendInt_def digit_def digits.simps)

lemma cents_format_250012: "cents_format 250012 = ''2500.12''"
  by (simp add: cents_format_def appendInt_def digit_def digits.simps)

lemma cents_format_big: "cents_format 10000000000000000000000 = ''100000000000000000000.00''"
  by (simp add: cents_format_def appendInt_def digit_def digits.simps)

lemma cents_parse_250012: "cents_parse ''2500.12'' = Some 250012"
  by (simp add: cents_parse_def cents_unsigned_def strings_Split_def)

lemma cents_parse_150: "cents_parse ''1.50'' = Some 150"
  by (simp add: cents_parse_def cents_unsigned_def strings_Split_def)

lemma cents_parse_big: "cents_parse ''100000000000000000000.00'' = Some 10000000000000000000000"
  by (simp add: cents_parse_def cents_unsigned_def strings_Split_def)

lemma retained_one_line:
  "retained ''2024-03-09 17:00:00|2500.12\<newline>'' = [''2024-03-09 17:00:00|2500.12'']"
  by (simp add: retained_def ScanLines_def MaxScanTokenSize_def dropCR_def)

lemma retained_one_bad:
  "retained ''2024-03-09 17:00:00 2500.12\<newline>'' = [] @ ''2024-03-09 17:00:00 2500.12'' # []"
  by (simp add: retained_def ScanLines_def MaxScanTokenSize_def dropCR_def)

lemma points_loop_one_line:
  "points_loop cents 0 [''2024-03-09 17:00:00|2500.12''] = Inr [(0, 250012)]"
  by (simp add: strings_Split_def cents_def cents_parse_250012)

lemma fetchPoints_one_line:
  "fetchPoints cents ''Ethereum'' ''.data.1027''
       [''.data.1027'' \<mapsto> ''2024-03-09 17:00:00|2500.12\<newline>'']
     = Inr ([(0, 250012)], [''.data.1027'' \<mapsto> ''2024-03-09 17:00:00|2500.12\<newline>''])"
  using retained_one_line points_loop_one_line
  by (simp add: fetchPoints_eq defaultBufSize_def written_bytes_def)

lemma pollApi_key_one_asset:
  "pollApi_key cents chart_run one_asset Map.empty ''1027''
     = ([''.data.1027'' \<mapsto> ''2024-03-09 17:00:00|2500.12\<newline>''],
        [SendPhoto ''1027.png''
           (buildPriceString cents ''Ethereum'' 250012 15 (- 230) 0)], None)"
proof -
  have q: "lookup_Quote cents (lookup_Data one_asset ''1027'') ''USD''
             = \<lparr>Price = 250012, PercentChange1h = 15, PercentChange24h = - 230, PercentChange7d = 0\<rparr>"
    and n: "Name (lookup_Data one_asset ''1027'') = ''Ethereum''"
    by (simp_all add: lookup_Quote_def lookup_Data_def one_asset_def)
  have a: "appendSample cents Map.empty ''1027'' (clock chart_run ''1027'') 250012
             = Inr [''.data.1027'' \<mapsto> ''2024-03-09 17:00:00|2500.12\<newline>'']"
    using tFmt_evening cents_format_250012 by (simp add: appendSample_eq chart_run_def cents_def)
  have p: "plot chart_run ''1027'' [(0, 250012)] = Saved"
    by (simp add: chart_run_def)
  show ?thesis
    by (simp add: pollApi_key_def Let_def q n a fetchPoints_one_line p)
qed

lemma pollApi_loop_one_asset:
  "pollApi_loop cents Map.empty [chart_run]
     = ([''.data.1027'' \<mapsto> ''2024-03-09 17:00:00|2500.12\<newline>''],
        [Get, SendPhoto ''1027.png'' (buildPriceString cents ''Ethereum'' 250012 15 (- 230) 0),
         Sleep 15], Running)"
proof -
  have "stop chart_run = False" "reply chart_run = Decoded one_asset"
    "sort (ranged chart_run) = [''1027'']"
    by (simp_all add: chart_run_def)
  then show ?thesis by (simp add: pollApi_key_one_asset)
qed

lemma pollApi_text_loop_one_asset:
  "pollApi_text_loop cents [text_run]
     = ([Get, SendText (format_cycle cents one_asset [''1027'']), Sleep 5], Running)"
  by (simp add: text_run_def)

text \<open>The lemma \<open>append_then_fetch\<close> at a file of one line and the price 2500.12.\<close>

lemma append_then_fetch_example:
  "\<exists>fs1 pts.
     appendSample cents [''.data.1027'' \<mapsto> file_of_lines [''2024-03-09 16:00:00|2499.00'']]
         ''1027'' \<lparr>Year = 2024, Month = 3, Day = 9, Hour = 17\<rparr> 250012 = Inr fs1
     \<and> fetchPoints cents ''Ethereum'' (''.data.'' @ ''1027'') fs1 = Inr (pts, fs1)
     \<and> pts \<noteq> [] \<and> snd (last pts) = 250012"
proof (rule append_then_fetch [where ls = "[''2024-03-09 16:00:00|2499.00'']"])
  show "(case [''.data.1027'' \<mapsto> file_of_lines [''2024-03-09 16:00:00|2499.00'']]
               (''.data.'' @ ''1027'') of None \<Rightarrow> [] | Some c \<Rightarrow> c)
          = file_of_lines [''2024-03-09 16:00:00|2499.00'']"
    by simp
  show "\<forall>l\<in>set [''2024-03-09 16:00:00|2499.00''].
          CHR ''\<newline>'' \<notin> set l \<and> length l < MaxScanTokenSize"
    by (simp add: MaxScanTokenSize_def)
  show "list_all (well_formed_line cents) (map dropCR [''2024-03-09 16:00:00|2499.00''])"
    by (simp add: well_formed_line_def line_price_def strings_Split_def dropCR_def cents_def
          cents_parse_def cents_unsigned_def)
  show "CHR ''\<newline>'' \<notin> set (Sprintf_2f cents 250012)" "CHR ''|'' \<notin> set (Sprintf_2f cents 250012)"
    "CHR 0x0D \<notin> set (Sprintf_2f cents 250012)"
    by (simp_all add: cents_def cents_format_250012)
  show "length (tFmt \<lparr>Year = 2024, Month = 3, Day = 9, Hour = 17\<rparr> @ ''|''
                  @ Sprintf_2f cents 250012) < MaxScanTokenSize"
    unfolding tFmt_evening by (simp add: cents_def cents_format_250012 MaxScanTokenSize_def)
  show "ParseFloat cents (Sprintf_2f cents 250012) = Some 250012"
    by (simp add: cents_def cents_format_250012 cents_parse_250012)
  show "written_bytes (retained (file_of_lines
            ([''2024-03-09 16:00:00|2499.00'']
               @ [tFmt \<lparr>Year = 2024, Month = 3, Day = 9, Hour = 17\<rparr> @ ''|''
                    @ Sprintf_2f cents 250012]))) \<le> defaultBufSize"
    unfolding tFmt_evening
    by (simp add: cents_def cents_format_250012 file_of_lines_def retained_def ScanLines_def
          MaxScanTokenSize_def dropCR_def written_bytes_def defaultBufSize_def)
qed

lemma ScanLines_history101: "ScanLines history101 = old_line # replicate 100 new_line"
proof -
  have "\<forall>l\<in>set (old_line # replicate 100 new_line).
          CHR ''\<newline>'' \<notin> set l \<and> length l < MaxScanTokenSize"
    by (simp add: old_line_def new_line_def MaxScanTokenSize_def)
  then have "ScanLines history101 = map dropCR (old_line # replicate 100 new_line)"
    unfolding history101_def by (rule ScanLines_file_of_lines)
  moreover have "dropCR old_line = old_line" "dropCR new_line = new_line"
    by (simp_all add: dropCR_def old_line_def new_line_def)
  ultimately show ?thesis by simp
qed

lemma retained_history101: "retained history101 = replicate 100 new_line"
  by (simp add: retained_drop ScanLines_history101)

lemma line_price_new_line: "line_price cents new_line = Some 150"
  by (simp add: line_price_def new_line_def strings_Split_def cents_def cents_parse_150)

lemma ScanLines_replicate_big: "ScanLines (file_of_lines (replicate n big_line)) = replicate n big_line"
proof -
  have "\<forall>l\<in>set (replicate n big_line). CHR ''\<newline>'' \<notin> set l \<and> length l < MaxScanTokenSize"
    by (simp add: big_line_def MaxScanTokenSize_def)
  then have "ScanLines (file_of_lines (replicate n big_line)) = map dropCR (replicate n big_line)"
    by (rule ScanLines_file_of_lines)
  moreover have "dropCR big_line = big_line"
    by (simp add: dropCR_def big_line_def)
  ultimately show ?thesis by simp
qed

lemma retained_history_big: "retained history_big = replicate 100 big_line"
  by (simp add: retained_drop ScanLines_replicate_big history_big_def)

lemma line_price_big_line: "line_price cents big_line = Some 10000000000000000000000"
  by (simp add: line_price_def big_line_def strings_Split_def cents_def cents_parse_big)

lemma Split_big_line:
  "strings_Split big_line (CHR ''|'') = [''2024-01-01 10:00:00'', ''100000000000000000000.00'']"
  by (simp add: big_line_def strings_Split_def)

lemma fetchPoints_history_big:
  "fetchPoints L symbolName fname [fname \<mapsto> history_big]
     = Inl (if ParseFloat L ''100000000000000000000.00'' = None then ParseError else EBADF)"
proof (cases "ParseFloat L ''100000000000000000000.00''")
  case None
  have "replicate 100 big_line = big_line # replicate 99 big_line" by (simp add: numeral_eq_Suc)
  then have "points_loop L 0 (replicate 100 big_line) = Inl ParseError"
    using None by (simp add: Split_big_line)
  with None show ?thesis by (simp add: fetchPoints_eq retained_history_big)
next
  case (Some y)
  then have "line_price L big_line = Some y"
    by (simp add: line_price_def Split_big_line)
  then have "points_loop L 0 (replicate 100 big_line)
               = Inr (map (\<lambda>k. (fromInt L (int k), y)) [0..<0 + 100])"
    by (rule points_loop_replicate)
  moreover have "\<not> written_bytes (replicate 100 big_line) \<le> defaultBufSize"
    by (simp add: written_bytes_replicate big_line_def defaultBufSize_def)
  ultimately show ?thesis using Some by (simp add: fetchPoints_eq retained_history_big)
qed

subsection \<open>The rounding of float64\<close>

lemma log2_up_bounds:
  "1 \<le> a \<Longrightarrow> 0 \<le> log2_up a \<and> 2 powi log2_up a \<le> a \<and> a < 2 powi (log2_up a + 1)"
proof (induction a rule: log2_up.induct)
  case (1 a)
  show ?case
  proof (cases "2 \<le> a")
    case True
    then have "1 \<le> a / 2" by simp
    with 1 True have ih: "0 \<le> log2_up (a / 2)" "2 powi log2_up (a / 2) \<le> a / 2"
      "a / 2 < 2 powi (log2_up (a / 2) + 1)"
      by simp_all
    have s: "log2_up a = 1 + log2_up (a / 2)"
      using True by (subst log2_up.simps) simp
    have "2 powi (1 + log2_up (a / 2)) = (2::rat) * 2 powi log2_up (a / 2)"
      by (simp add: power_int_add)
    moreover have "2 powi (1 + log2_up (a / 2) + 1) = (2::rat) * 2 powi (log2_up (a / 2) + 1)"
      by (simp add: power_int_add)
    ultimately show ?thesis using ih unfolding s by simp
  next
    case False
    then have "log2_up a = 0" by (subst log2_up.simps) simp
    with False 1 show ?thesis by simp
  qed
qed

lemma log2_down_bounds:
  "0 < a \<Longrightarrow> a < 1 \<Longrightarrow> 2 powi log2_down a \<le> a \<and> a < 2 powi (log2_down a + 1)"
proof (induction a rule: log2_down.induct)
  case (1 a)
  have s: "log2_down a = log2_down (2 * a) - 1"
    using 1(2,3) by (subst log2_down.simps) simp
  show ?case
  proof (cases "2 * a < 1")
    case True
    with 1 have ih: "2 powi log2_down (2 * a) \<le> 2 * a" "2 * a < 2 powi (log2_down (2 * a) + 1)"
      by simp_all
    have "2 powi (log2_down (2 * a) - 1) = (2::rat) powi log2_down (2 * a) / 2"
      by (simp add: power_int_diff)
    moreover have "2 powi (log2_down (2 * a) - 1 + 1) = (2::rat) powi (log2_down (2 * a) + 1) / 2"
      by (simp add: power_int_add)
    ultimately show ?thesis using ih unfolding s by simp
  next
    case False
    then have "log2_down (2 * a) = 0" by (subst log2_down.simps) simp
    with False 1(2,3) show ?thesis unfolding s by (simp add: power_int_minus)
  qed
qed

lemma ilog2_bounds:
  assumes "0 < a"
  shows "2 powi ilog2 a \<le> a" and "a < 2 powi (ilog2 a + 1)"
  using assms log2_up_bounds [of a] log2_down_bounds [of a]
  by (auto simp: ilog2_def not_le)

lemma round_half_even_error: "\<bar>of_int (round_half_even x) - x\<bar> \<le> 1 / 2"
proof -
  have "of_int \<lfloor>x\<rfloor> \<le> x" "x < of_int \<lfloor>x\<rfloor> + 1" by linarith+
  then show ?thesis
    by (auto simp: round_half_even_def Let_def abs_le_iff)
qed

lemma round_half_even_ge_floor: "\<lfloor>x\<rfloor> \<le> round_half_even x"
  by (simp add: round_half_even_def Let_def)

lemma round_half_away_error: "\<bar>of_int (round_half_away x) - x\<bar> \<le> 1 / 2"
proof (cases "0 \<le> x")
  case True
  have "of_int \<lfloor>x + 1 / 2\<rfloor> \<le> x + 1 / 2" "x + 1 / 2 < of_int \<lfloor>x + 1 / 2\<rfloor> + 1"
    by linarith+
  then have "\<bar>of_int \<lfloor>x + 1 / 2\<rfloor> - x\<bar> \<le> 1 / 2" by linarith
  with True show ?thesis by (simp add: round_half_away_def)
next
  case False
  define n where "n = \<lfloor>- x + 1 / 2\<rfloor>"
  have "of_int n \<le> - x + 1 / 2" "- x + 1 / 2 < of_int n + 1"
    unfolding n_def by linarith+
  then have "\<bar>of_int (- n) - x\<bar> \<le> 1 / 2"
    unfolding of_int_minus by linarith
  with False show ?thesis by (simp add: round_half_away_def n_def)
qed

lemma toFloat64_overflow:
  assumes "2 ^ 1024 \<le> \<bar>q\<bar>"
  shows "toFloat64 q = (if 0 < q then PosInf else NegInf)"
proof -
  define a where "a = \<bar>q\<bar>"
  define E where "E = ilog2 a"
  define e where "e = max (E - 52) (- 1074)"
  have a: "0 < a" "2 ^ 1024 \<le> a" using assms by (simp_all add: a_def)
  have lo: "2 powi E \<le> a" and hi: "a < 2 powi (E + 1)"
    unfolding E_def using ilog2_bounds [OF a(1)] by simp_all
  have E: "1024 \<le> E"
  proof (rule ccontr)
    assume "\<not> 1024 \<le> E"
    then have "E + 1 \<le> 1024" by simp
    then have "(2::rat) powi (E + 1) \<le> 2 powi 1024"
      by (rule power_int_increasing) simp
    with hi a(2) show False by simp
  qed
  then have e: "e = E - 52" by (simp add: e_def)
  have pe: "(2::rat) powi E = 2 ^ 52 * 2 powi e"
    unfolding e using power_int_add [of "2::rat" 52 "E - 52"] by simp
  have pos: "0 < (2::rat) powi e" by simp
  have "2 ^ 52 * 2 powi e \<le> a" using lo pe by simp
  then have "2 ^ 52 \<le> a / 2 powi e" using pos by (simp add: pos_le_divide_eq)
  then have "(2::int) ^ 52 \<le> \<lfloor>a / 2 powi e\<rfloor>"
    by (simp add: le_floor_iff)
  then have "(2::int) ^ 52 \<le> round_half_even (a / 2 powi e)"
    using round_half_even_ge_floor [of "a / 2 powi e"] by linarith
  then have "(2::rat) ^ 52 \<le> of_int (round_half_even (a / 2 powi e))"
    by (metis of_int_le_iff of_int_numeral of_int_power)
  then have A: "2 ^ 52 * 2 powi e \<le> (of_int (round_half_even (a / 2 powi e)) :: rat) * 2 powi e"
    using pos by (simp only: mult_le_cancel_right_pos)
  have "(2::rat) powi 1024 \<le> 2 powi E"
    using E by (rule power_int_increasing) simp
  then have B: "(2::rat) ^ 1024 \<le> 2 ^ 52 * 2 powi e"
    unfolding pe by simp
  from B A have "2 ^ 1024 \<le> (of_int (round_half_even (a / 2 powi e)) :: rat) * 2 powi e"
    by (rule order_trans)
  moreover have "q \<noteq> 0" using a(1) by (auto simp: a_def)
  ultimately show ?thesis
    unfolding toFloat64_def Let_def a_def [symmetric] E_def [symmetric] e_def [symmetric]
    by (simp only: if_False if_True)
qed

lemma toFloat64_error:
  assumes "\<bar>q\<bar> < 2 ^ 1023"
  shows "\<exists>v. toFloat64 q = Finite v \<and> \<bar>v - q\<bar> \<le> \<bar>q\<bar> / 2 ^ 53 + 1 / 2 ^ 1075"
proof (cases "q = 0")
  case True
  then show ?thesis by (simp add: toFloat64_def)
next
  case False
  define a where "a = \<bar>q\<bar>"
  define E where "E = ilog2 a"
  define e where "e = max (E - 52) (- 1074)"
  define m where "m = round_half_even (a / 2 powi e)"
  define v :: rat where "v = of_int m * 2 powi e"
  have a: "0 < a" "a < 2 ^ 1023" using assms False by (simp_all add: a_def)
  have lo: "2 powi E \<le> a" and hi: "a < 2 powi (E + 1)"
    unfolding E_def using ilog2_bounds [OF a(1)] by simp_all
  have pos: "0 < (2::rat) powi e" by simp
  have E: "E \<le> 1022"
  proof (rule ccontr)
    assume "\<not> E \<le> 1022"
    then have "1023 \<le> E" by simp
    then have "(2::rat) powi 1023 \<le> 2 powi E"
      by (rule power_int_increasing) simp
    with lo a(2) show False by simp
  qed
  have "\<bar>of_int m - a / 2 powi e\<bar> \<le> 1 / 2"
    unfolding m_def by (rule round_half_even_error)
  then have "\<bar>of_int m - a / 2 powi e\<bar> * 2 powi e \<le> 1 / 2 * 2 powi e"
    using pos by (simp only: mult_le_cancel_right_pos)
  moreover have "\<bar>of_int m - a / 2 powi e\<bar> * 2 powi e = \<bar>v - a\<bar>"
  proof -
    have "\<bar>of_int m - a / 2 powi e\<bar> * 2 powi e = \<bar>(of_int m - a / 2 powi e) * 2 powi e\<bar>"
      using pos by (simp add: abs_mult)
    also have "(of_int m - a / 2 powi e) * 2 powi e = v - a"
      using pos by (simp add: v_def algebra_simps)
    finally show ?thesis .
  qed
  ultimately have err: "\<bar>v - a\<bar> \<le> 2 powi e / 2" by simp
  have half: "2 powi e / 2 \<le> a / 2 ^ 53 + 1 / 2 ^ 1075"
  proof (cases "- 1074 \<le> E - 52")
    case True
    then have "e = E - 52" by (simp add: e_def)
    then have "(2::rat) powi E = 2 ^ 52 * 2 powi e"
      using power_int_add [of "2::rat" 52 "E - 52"] by simp
    with lo have "2 ^ 52 * 2 powi e \<le> a" by simp
    then show ?thesis by simp
  next
    case False
    then have "e = - 1074" by (simp add: e_def)
    then have "(2::rat) powi e = 1 / 2 ^ 1074" by (simp add: inverse_eq_divide)
    then have "2 powi e / 2 = 1 / (2::rat) ^ 1075" by simp
    moreover have "0 \<le> a / 2 ^ 53" using a(1) by simp
    ultimately show ?thesis by linarith
  qed
  have "e \<le> 970" using E by (simp add: e_def)
  then have "(2::rat) powi e \<le> 2 powi 970"
    by (rule power_int_increasing) simp
  then have "2 powi e / 2 \<le> (2::rat) ^ 969" by simp
  moreover have "(2::rat) ^ 1023 + 2 ^ 969 \<le> 2 ^ 1024" by simp
  moreover from err have "v \<le> a + 2 powi e / 2" by linarith
  ultimately have "v < 2 ^ 1024" using a(2) by linarith
  then have nov: "\<not> 2 ^ 1024 \<le> v" by simp
  have "toFloat64 q = Finite (sgn q * v)"
    unfolding toFloat64_def Let_def a_def [symmetric] E_def [symmetric] e_def [symmetric]
      m_def [symmetric] v_def [symmetric]
    using False nov by (simp only: if_False)
  moreover have "\<bar>sgn q * v - q\<bar> = \<bar>v - a\<bar>"
  proof (cases "0 < q")
    case True
    then show ?thesis by (simp add: a_def)
  next
    case neg: False
    with False have "q < 0" by simp
    then have "sgn q * v - q = - (v - a)" by (simp add: a_def)
    then show ?thesis by (simp only: abs_minus_cancel)
  qed
  ultimately show ?thesis using err half by (auto simp: a_def)
qed

lemma floor_numeral_div: "\<lfloor>numeral a / numeral b :: rat\<rfloor> = numeral a div numeral b"
  using floor_divide_of_int_eq [of "numeral a" "numeral b", where ?'a = rat] by simp

lemma floor_one_div: "\<lfloor>1 / numeral b :: rat\<rfloor> = 1 div numeral b"
  using floor_divide_of_int_eq [of 1 "numeral b", where ?'a = rat] by simp

lemmas f64_eval = toFloat64_def ilog2_def log2_up.simps log2_down.simps round_half_even_def
  round_half_away_def Let_def power_int_minus floor_numeral_div floor_one_div

lemma toFloat64_small: "toFloat64 10 = Finite 10" "toFloat64 2 = Finite 2" "toFloat64 100 = Finite 100"
  by (simp_all add: f64_eval)

lemma roundToPrecision_2:
  assumes "pw (Finite 10) (Finite 2) = Finite 100"
  shows "roundToPrecision (float64_arith pw fmt ps) x 2
           = f64_Quo (f64_Round (f64_Mul x (Finite 100))) (Finite 100)"
  using assms by (simp add: roundToPrecision_def float64_arith_def toFloat64_small Let_def)

lemma f64_Pow_10_2: "f64_Pow (Finite 10) (Finite 2) = Finite 100"
  by (simp add: f64_Pow_def toFloat64_small)

lemma roundToPrecision_finite:
  assumes pw: "pw (Finite 10) (Finite 2) = Finite 100" and small: "\<bar>p\<bar> * 100 < 2 ^ 1023"
  shows "\<exists>t r. toFloat64 (p * 100) = Finite t
      \<and> roundToPrecision (float64_arith pw fmt ps) (Finite p) 2 = Finite r
      \<and> toFloat64 (of_int (round_half_away t) / 100) = Finite r
      \<and> \<bar>r - p\<bar> \<le> 5 / 1000 + (\<bar>p\<bar> + 1) / 2 ^ 51"
proof -
  define A where "A = \<bar>p\<bar>"
  define eps :: rat where "eps = 1 / 2 ^ 1075"
  define K :: rat where "K = 2 ^ 1023"
  define u :: rat where "u = 1 / 2 ^ 53"
  define Au where "Au = A * u"
  have A: "0 \<le> A" "p \<le> A" "- p \<le> A" "A * 100 < K"
    using small by (simp_all add: A_def K_def)
  have Au: "0 \<le> Au" "100 * Au < K * u" "Au \<le> A"
    using A by (simp_all add: Au_def u_def mult_left_le)
  have cs: "0 < eps" "eps \<le> u" "K * u + 1 \<le> K * 99" "0 < u" "u \<le> 1 / 1000"
    by (simp_all add: eps_def u_def K_def)
  have "\<bar>p * 100\<bar> < 2 ^ 1023" using small by (simp add: abs_mult)
  from toFloat64_error [OF this] obtain t where
    t: "toFloat64 (p * 100) = Finite t" and "\<bar>t - p * 100\<bar> \<le> \<bar>p * 100\<bar> / 2 ^ 53 + eps"
    unfolding eps_def by blast
  then have "\<bar>t - p * 100\<bar> \<le> 100 * Au + eps"
    by (simp add: abs_mult A_def Au_def u_def)
  then have t1: "t \<le> p * 100 + (100 * Au + eps)" "p * 100 - (100 * Au + eps) \<le> t"
    by linarith+
  define n where "n = (of_int (round_half_away t) :: rat)"
  have "\<bar>n - t\<bar> \<le> 1 / 2" unfolding n_def by (rule round_half_away_error)
  then have n1: "n \<le> t + 1 / 2" "t - 1 / 2 \<le> n" by linarith+
  have nb: "\<bar>n\<bar> \<le> A * 100 + 100 * Au + eps + 1 / 2"
    using t1 n1 A by linarith
  have "\<bar>n\<bar> < K * 100"
    using nb A(4) Au(2) cs by linarith
  then have "\<bar>n / 100\<bar> < 2 ^ 1023" by (simp add: K_def)
  from toFloat64_error [OF this] obtain r where
    r: "toFloat64 (n / 100) = Finite r" and "\<bar>r - n / 100\<bar> \<le> \<bar>n / 100\<bar> / 2 ^ 53 + eps"
    unfolding eps_def by blast
  then have r0: "\<bar>r - n / 100\<bar> \<le> \<bar>n\<bar> * u / 100 + eps" by (simp add: u_def)
  have "\<bar>n\<bar> * u \<le> (A * 100 + 100 * Au + eps + 1 / 2) * u"
    using nb cs(4) by (simp only: mult_le_cancel_right_pos)
  also have "\<dots> = 100 * Au + 100 * (Au * u) + eps * u + u / 2"
    by (simp add: Au_def algebra_simps)
  finally have nu: "\<bar>n\<bar> * u \<le> 100 * Au + 100 * (Au * u) + eps * u + u / 2" .
  have "Au * u \<le> Au * (1 / 1000)" using Au(1) cs(5) by (rule mult_left_mono[rotated])
  moreover have "eps * u \<le> eps * (1 / 1000)" using cs(1,5) by (simp add: mult_left_mono)
  ultimately have nu': "\<bar>n\<bar> * u \<le> 100 * Au + Au / 10 + eps / 1000 + u / 2"
    using nu by linarith
  have r1: "r \<le> n / 100 + (\<bar>n\<bar> * u / 100 + eps)" "n / 100 - (\<bar>n\<bar> * u / 100 + eps) \<le> r"
    using r0 by linarith+
  have "\<bar>r - p\<bar> \<le> 5 / 1000 + 4 * Au + 4 * u"
    using r1 nu' t1 n1 Au(1) cs by linarith
  moreover have "(A + 1) / 2 ^ 51 = 4 * Au + 4 * u" by (simp add: Au_def u_def)
  ultimately have "\<bar>r - p\<bar> \<le> 5 / 1000 + (A + 1) / 2 ^ 51" by (simp only:)
  moreover have "roundToPrecision (float64_arith pw fmt ps) (Finite p) 2 = Finite r"
    using t r pw by (simp add: roundToPrecision_2 n_def)
  ultimately show ?thesis using t r by (auto simp: n_def A_def)
qed

lemma roundToPrecision_overflow:
  assumes pw: "pw (Finite 10) (Finite 2) = Finite 100" and big: "2 ^ 1024 \<le> \<bar>p\<bar> * 100"
  shows "roundToPrecision (float64_arith pw fmt ps) (Finite p) 2 = (if 0 < p then PosInf else NegInf)"
proof -
  have "2 ^ 1024 \<le> \<bar>p * 100\<bar>" using big by (simp add: abs_mult)
  then have "toFloat64 (p * 100) = (if 0 < p * 100 then PosInf else NegInf)"
    by (rule toFloat64_overflow)
  then have "f64_Mul (Finite p) (Finite 100) = (if 0 < p then PosInf else NegInf)"
    by (simp add: zero_less_mult_iff)
  then show ?thesis using pw by (simp add: roundToPrecision_2)
qed

lemma toFloat64_1234567: "toFloat64 (1234567 / 1000) = Finite (1357420771768533 / 2 ^ 40)"
  by (simp add: f64_eval)

lemma toFloat64_product_1234567: "toFloat64 (1357420771768533 / 2 ^ 40 * 100) = Finite (8483879823553331 / 2 ^ 36)"
  by (simp add: f64_eval)

lemma round_half_away_1234567: "round_half_away (8483879823553331 / 2 ^ 36) = 123457"
  by (simp add: round_half_away_def floor_numeral_div)

lemma toFloat64_123457: "toFloat64 (123457 / 100) = Finite (5429696281213665 / 2 ^ 42)"
  by (simp add: f64_eval)

lemma roundToPrecision_1234567:
  assumes "pw (Finite 10) (Finite 2) = Finite 100"
  shows "roundToPrecision (float64_arith pw fmt ps) (toFloat64 (1234567 / 1000)) 2
           = toFloat64 (123457 / 100)"
  unfolding roundToPrecision_2 [of pw, OF assms] toFloat64_1234567 toFloat64_123457
    f64_Mul.simps toFloat64_product_1234567 f64_Round.simps round_half_away_1234567
  using toFloat64_123457 by simp

lemma toFloat64_2675: "toFloat64 (2675 / 1000) = Finite (3011782250804019 / 2 ^ 50)"
  by (simp add: f64_eval)

lemma toFloat64_product_2675: "toFloat64 (3011782250804019 / 2 ^ 50 * 100) = Finite (535 / 2)"
  by (simp add: f64_eval)

lemma round_half_away_2675: "round_half_away (535 / 2) = 268"
  by (simp add: round_half_away_def floor_numeral_div)

lemma toFloat64_268: "toFloat64 (268 / 100) = Finite (6034823500676465 / 2 ^ 51)"
  by (simp add: f64_eval)

lemma roundToPrecision_2675:
  "roundToPrecision float64_run (Finite (3011782250804019 / 2 ^ 50)) 2
     = Finite (6034823500676465 / 2 ^ 51)"
  unfolding float64_run_def roundToPrecision_2 [of f64_Pow, OF f64_Pow_10_2]
    f64_Mul.simps toFloat64_product_2675 f64_Round.simps round_half_away_2675
  using toFloat64_268 by simp

lemma roundToPrecision_1e307:
  "roundToPrecision float64_run (toFloat64 (10 ^ 307)) 2 = PosInf"
proof -
  define T :: rat where "T = 10 ^ 307"
  have T: "\<bar>T\<bar> < 2 ^ 1023" "\<bar>T\<bar> / 2 ^ 53 + 1 / 2 ^ 1075 \<le> T / 2" "2 ^ 1024 / 100 \<le> T / 2"
    by (simp_all add: T_def)
  from toFloat64_error [OF T(1)] obtain v where
    v: "toFloat64 T = Finite v" and "\<bar>v - T\<bar> \<le> \<bar>T\<bar> / 2 ^ 53 + 1 / 2 ^ 1075"
    by blast
  with T(2,3) have "(2::rat) ^ 1024 / 100 \<le> v" by linarith
  moreover have "(0::rat) < 2 ^ 1024 / 100" by simp
  ultimately have pos: "0 < v" and "2 ^ 1024 / 100 \<le> \<bar>v\<bar>" by linarith+
  then have big: "2 ^ 1024 \<le> \<bar>v\<bar> * 100" by (simp only: pos_divide_le_eq zero_less_numeral)
  from roundToPrecision_overflow [of f64_Pow v "\<lambda>x. []" "\<lambda>s. None", OF f64_Pow_10_2 big] pos
  show ?thesis unfolding T_def [symmetric] by (simp add: float64_run_def v)
qed

section \<open>The formatter's layout\<close>

text \<open>
  Claim C4. For all inputs, the output of buildPriceString is the name and price line,
  then exactly three blocks in the order 1h, 24h, 7d, each a marker, a space, the label,
  a colon, a newline, the value with a percent sign and a newline, and then one empty
  line. The marker of a block is the positive one exactly when the comparison of the
  percentage of that block with zero, by the operator >, holds, and the negative one
  otherwise; so zero, which is not greater than itself, gets the negative marker. The
  two markers differ.
\<close>

theorem buildPriceString_layout:
  "buildPriceString L token price change1h change24h change7d =
     price_line L token price
       @ pct_block L ''1h'' change1h
       @ pct_block L ''24h'' change24h
       @ pct_block L ''7d'' change7d
       @ ''\<newline>''
   \<and> (marker L x = green_square) = Gt L x (fromInt L 0)
   \<and> (marker L x = red_square) = (\<not> Gt L x (fromInt L 0))
   \<and> (\<not> Gt L (fromInt L 0) (fromInt L 0) \<longrightarrow> marker L (fromInt L 0) = red_square)
   \<and> green_square \<noteq> red_square"
  by (simp add: buildPriceString_def price_line_def pct_block_def marker_def Let_def
        green_square_def red_square_def)

theorem buildPriceString_layout_witness:
  "\<not> Gt cents (fromInt cents 0) (fromInt cents 0)
   \<and> marker cents (fromInt cents 0) = red_square
   \<and> buildPriceString cents ''Ethereum'' 250012 15 (- 230) 0
       = ''Ethereum: 2500.12\<newline>''
           @ green_square @ '' 1h:\<newline>0.15%\<newline>''
           @ red_square @ '' 24h:\<newline>-2.30%\<newline>''
           @ red_square @ '' 7d:\<newline>0.00%\<newline>''
           @ ''\<newline>''"
proof -
  have r: "roundToPrecision cents 250012 2 = 250012" "roundToPrecision cents 15 2 = 15"
    "roundToPrecision cents (- 230) 2 = - 230" "roundToPrecision cents 0 2 = 0"
    by (simp_all add: roundToPrecision_def cents_def cents_round_def)
  have f: "Sprintf_2f cents 250012 = ''2500.12''" "Sprintf_2f cents 15 = ''0.15''"
    "Sprintf_2f cents (- 230) = ''-2.30''" "Sprintf_2f cents 0 = ''0.00''"
    by (simp_all add: cents_def cents_format_def appendInt_def digit_def digits.simps)
  have g: "Gt cents 15 (fromInt cents 0)" "\<not> Gt cents (- 230) (fromInt cents 0)"
    "\<not> Gt cents 0 (fromInt cents 0)" "fromInt cents 0 = 0"
    by (simp_all add: cents_def)
  from buildPriceString_layout [of cents "''Ethereum''" 250012 15 "- 230" 0 0] r f g
  show ?thesis
    by (simp add: price_line_def pct_block_def marker_def)
qed

section \<open>Rounding to two decimals\<close>

text \<open>
  Claim C5, as amended. On float64, with math.Pow(10, 2) = 100: for every finite p whose
  product with 100 is below 2 to the power 1023 in absolute value, roundToPrecision(p, 2)
  is finite; it is the float64 nearest to n/100, where n is the integer nearest to the
  float64 product p*100, ties away from zero; and it differs from p by at most
  0.005 + (|p| + 1) / 2^51. When the product is 2 to the power 1024 or more in absolute
  value the result is the infinity of the sign of p. roundToPrecision(1234.567, 2) is
  1234.57, both read as the float64 nearest to the decimal.
\<close>

theorem roundToPrecision_float64:
  assumes "pw (Finite 10) (Finite 2) = Finite 100"
  shows "(\<bar>p\<bar> * 100 < 2 ^ 1023 \<longrightarrow>
           (\<exists>t r. toFloat64 (p * 100) = Finite t
              \<and> roundToPrecision (float64_arith pw fmt ps) (Finite p) 2 = Finite r
              \<and> toFloat64 (of_int (round_half_away t) / 100) = Finite r
              \<and> \<bar>r - p\<bar> \<le> 5 / 1000 + (\<bar>p\<bar> + 1) / 2 ^ 51))
    \<and> (2 ^ 1024 \<le> \<bar>p\<bar> * 100 \<longrightarrow>
           roundToPrecision (float64_arith pw fmt ps) (Finite p) 2
             = (if 0 < p then PosInf else NegInf))
    \<and> roundToPrecision (float64_arith pw fmt ps) (toFloat64 (1234567 / 1000)) 2
          = toFloat64 (123457 / 100)"
  using assms roundToPrecision_finite [of pw p fmt ps] roundToPrecision_overflow [of pw p fmt ps]
    roundToPrecision_1234567 [of pw fmt ps]
  by blast

theorem roundToPrecision_float64_witness:
  "f64_Pow (Finite 10) (Finite 2) = Finite 100
   \<and> \<bar>1357420771768533 / 2 ^ 40 :: rat\<bar> * 100 < 2 ^ 1023
   \<and> roundToPrecision float64_run (Finite (1357420771768533 / 2 ^ 40)) 2
       = Finite (5429696281213665 / 2 ^ 42)
   \<and> \<bar>5429696281213665 / 2 ^ 42 - 1357420771768533 / 2 ^ 40 :: rat\<bar>
       \<le> 5 / 1000 + (\<bar>1357420771768533 / 2 ^ 40\<bar> + 1) / 2 ^ 51
   \<and> roundToPrecision float64_run (toFloat64 (1234567 / 1000)) 2 = toFloat64 (123457 / 100)"
proof -
  have small: "\<bar>1357420771768533 / 2 ^ 40 :: rat\<bar> * 100 < 2 ^ 1023" by simp
  note k = roundToPrecision_float64 [of f64_Pow "1357420771768533 / 2 ^ 40"
      "\<lambda>x. []" "\<lambda>s. None", OF f64_Pow_10_2, folded float64_run_def]
  from k small obtain t r where
    r: "roundToPrecision float64_run (Finite (1357420771768533 / 2 ^ 40)) 2 = Finite r"
      "\<bar>r - 1357420771768533 / 2 ^ 40\<bar> \<le> 5 / 1000 + (\<bar>1357420771768533 / 2 ^ 40\<bar> + 1) / 2 ^ 51"
    by blast
  from k have e: "roundToPrecision float64_run (toFloat64 (1234567 / 1000)) 2 = toFloat64 (123457 / 100)"
    by blast
  then have "roundToPrecision float64_run (Finite (1357420771768533 / 2 ^ 40)) 2
       = Finite (5429696281213665 / 2 ^ 42)"
    unfolding toFloat64_1234567 toFloat64_123457 .
  with r have "r = 5429696281213665 / 2 ^ 42" by simp
  with r e small f64_Pow_10_2 show ?thesis by (intro conjI) simp_all
qed

text \<open>The claim as it was stated, with the bound 0.005 for all p, fails on the code. For
  the float64 nearest to 1e307 the product with 100 overflows and the result is +Inf.
  For the float64 nearest to 2.675, which is below 2.675, the product rounds to 267.5,
  math.Round gives 268 and the result 2.68 is more than 0.005 away from the input, whose
  nearest multiple of 0.01 is 2.67.\<close>

theorem roundToPrecision_counterexample:
  "roundToPrecision float64_run (toFloat64 (10 ^ 307)) 2 = PosInf
   \<and> toFloat64 (2675 / 1000) = Finite (3011782250804019 / 2 ^ 50)
   \<and> roundToPrecision float64_run (Finite (3011782250804019 / 2 ^ 50)) 2
       = Finite (6034823500676465 / 2 ^ 51)
   \<and> (5::rat) / 1000 < \<bar>6034823500676465 / 2 ^ 51 - 3011782250804019 / 2 ^ 50\<bar>"
proof -
  have "(5::rat) / 1000 < \<bar>6034823500676465 / 2 ^ 51 - 3011782250804019 / 2 ^ 50\<bar>"
    by simp
  with roundToPrecision_1e307 toFloat64_2675 roundToPrecision_2675 show ?thesis
    by (intro conjI)
qed

section \<open>One cycle of the text variant\<close>

text \<open>
  Claim C3. For every response whose status.errorCode is not 0 and whose data map is
  empty, one cycle formats the empty string, sends it, sleeps and goes on to the next
  iteration: no exit and no panic. The cycle does not read the status: replacing it by
  any other status leaves the formatted text unchanged.
\<close>

theorem empty_data_cycle:
  assumes "ErrorCode (Status r) \<noteq> 0" and "Data r = Map.empty" and "ranges_over ks (Data r)"
  shows "format_cycle L r ks = []
    \<and> pollApi_text L True (\<lparr>stop = False, reply = Decoded r, ranged = ks\<rparr> # rest)
        = (Get # SendText [] # Sleep 5 # fst (pollApi_text L True rest),
           snd (pollApi_text L True rest))
    \<and> format_cycle L (r\<lparr>Status := st\<rparr>) ks = format_cycle L r ks"
proof -
  from assms(2,3) have "ks = []" by (simp add: ranges_over_def)
  then have "format_cycle L r ks = []" by (simp add: format_cycle_def)
  moreover have "format_cycle L (r\<lparr>Status := st\<rparr>) ks = format_cycle L r ks"
    by (simp add: format_cycle_def asset_block_def lookup_Data_def)
  ultimately show ?thesis by (simp add: pollApi_text_def split: prod.splits)
qed

theorem empty_data_cycle_witness:
  "ErrorCode (Status \<lparr>Status = \<lparr>ErrorCode = 1001, ErrorMessage = Some ''This API Key is invalid.''\<rparr>,
                      Data = (Map.empty :: string \<rightharpoonup> int CryptoData)\<rparr>) \<noteq> 0
   \<and> ranges_over [] (Map.empty :: string \<rightharpoonup> int CryptoData)
   \<and> pollApi_text cents True
        [\<lparr>stop = False,
          reply = Decoded \<lparr>Status = \<lparr>ErrorCode = 1001, ErrorMessage = Some ''This API Key is invalid.''\<rparr>,
                           Data = Map.empty\<rparr>,
          ranged = []\<rparr>]
      = ([Get, SendText [], Sleep 5], Running)"
  using empty_data_cycle
    [of "\<lparr>Status = \<lparr>ErrorCode = 1001, ErrorMessage = Some ''This API Key is invalid.''\<rparr>,
          Data = Map.empty\<rparr>" "[]" cents "[]"]
  by (simp add: ranges_over_def pollApi_text_def)

text \<open>
  Claim C6. Whatever the order in which the map is ranged over, the formatted text of a
  cycle is the same: the blocks of the assets, one for each key of the map, in ascending
  bytewise order of the keys. For the keys 1027, 5426 and 34625 that order is 1027,
  34625, 5426.
\<close>

theorem format_cycle_key_order:
  assumes "ranges_over ks1 (Data r)" and "ranges_over ks2 (Data r)"
  shows "format_cycle L r ks1 = format_cycle L r ks2
    \<and> format_cycle L r ks1 = concat (map (asset_block L r) (sort ks1))
    \<and> sorted (sort ks1) \<and> distinct (sort ks1) \<and> set (sort ks1) = dom (Data r)"
proof -
  from assms have "sort ks1 = sort ks2" by (rule sort_same_keys)
  then have "format_cycle L r ks1 = format_cycle L r ks2"
    by (simp add: format_cycle_concat)
  moreover from assms(1) have "distinct (sort ks1)" "set (sort ks1) = dom (Data r)"
    by (simp_all add: ranges_over_def)
  ultimately show ?thesis by (simp add: format_cycle_concat)
qed

theorem format_cycle_key_order_witness:
  "ranges_over [''5426'', ''34625'', ''1027''] (Data three_assets)
   \<and> ranges_over [''1027'', ''5426'', ''34625''] (Data three_assets)
   \<and> format_cycle cents three_assets [''5426'', ''34625'', ''1027'']
       = format_cycle cents three_assets [''1027'', ''5426'', ''34625'']
   \<and> format_cycle cents three_assets [''5426'', ''34625'', ''1027'']
       = asset_block cents three_assets ''1027''
           @ asset_block cents three_assets ''34625''
           @ asset_block cents three_assets ''5426''"
proof -
  have a: "ranges_over [''5426'', ''34625'', ''1027''] (Data three_assets)"
    by (auto simp: ranges_over_def three_assets_def)
  have b: "ranges_over [''1027'', ''5426'', ''34625''] (Data three_assets)"
    by (auto simp: ranges_over_def three_assets_def)
  have c: "sort [''5426'', ''34625'', ''1027''] = [''1027'', ''34625'', ''5426'']"
    by simp
  note k = format_cycle_key_order [OF a b, of cents]
  from k have e1: "format_cycle cents three_assets [''5426'', ''34625'', ''1027'']
       = format_cycle cents three_assets [''1027'', ''5426'', ''34625'']"
    by (rule conjunct1)
  from k have "format_cycle cents three_assets [''5426'', ''34625'', ''1027'']
       = concat (map (asset_block cents three_assets) (sort [''5426'', ''34625'', ''1027'']))"
    by (elim conjE)
  then have e2: "format_cycle cents three_assets [''5426'', ''34625'', ''1027'']
       = asset_block cents three_assets ''1027''
           @ asset_block cents three_assets ''34625''
           @ asset_block cents three_assets ''5426''"
    unfolding c by simp
  from a b e1 e2 show ?thesis by (intro conjI)
qed

section \<open>Stopping the loop\<close>

text \<open>
  Claim C7. The loop looks at the stop signal once at the head of each iteration, by a
  select with a default case, and not inside a cycle. When the loop has run through the
  iterations \<open>pre\<close> and a value can be received from qChan at the next head, the loop
  returns there: the run is the events of \<open>pre\<close> followed by the deferred wg.Done(),
  it holds as many cycles as \<open>pre\<close> has iterations, and the iterations \<open>post\<close> that
  the environment would supply afterwards add no fetch, no formatting and no message.
  This holds for the loop of the text variant and for the loop of the chart variant.
\<close>

theorem stop_signal_ends_loop:
  assumes "stop s" and "snd (pollApi_text L True pre) = Running"
    and "stop c" and "snd (snd (pollApi L True fs cpre)) = Running"
  shows "pollApi_text L True (pre @ s # post)
           = (fst (pollApi_text L True pre) @ [WgDone], Returned)
    \<and> cycles (fst (pollApi_text L True (pre @ s # post))) = length pre
    \<and> pollApi L True fs (cpre @ c # cpost)
           = (fst (pollApi L True fs cpre), fst (snd (pollApi L True fs cpre)) @ [WgDone],
              Returned)
    \<and> cycles (fst (snd (pollApi L True fs (cpre @ c # cpost)))) = length cpre"
proof -
  have "cycles (fst (pollApi_text_loop L pre) @ [WgDone]) = cycles (fst (pollApi_text_loop L pre))"
    and "cycles (fst (snd (pollApi_loop L fs cpre)) @ [WgDone])
           = cycles (fst (snd (pollApi_loop L fs cpre)))"
    by (simp_all add: cycles_def)
  with assms show ?thesis
    by (simp add: pollApi_text_def pollApi_def text_loop_stop text_loop_cycles chart_loop_stop
          chart_loop_cycles)
qed

theorem stop_signal_ends_loop_witness:
  "stop text_stop \<and> snd (pollApi_text cents True [text_run]) = Running
   \<and> stop chart_stop \<and> snd (snd (pollApi cents True Map.empty [chart_run])) = Running
   \<and> pollApi_text cents True ([text_run] @ text_stop # [text_run])
       = ([Get, SendText (format_cycle cents one_asset [''1027'']), Sleep 5] @ [WgDone], Returned)
   \<and> cycles (fst (pollApi_text cents True ([text_run] @ text_stop # [text_run])))
       = length [text_run]
   \<and> pollApi cents True Map.empty ([chart_run] @ chart_stop # [chart_run])
       = ([''.data.1027'' \<mapsto> ''2024-03-09 17:00:00|2500.12\<newline>''],
          [Get, SendPhoto ''1027.png'' (buildPriceString cents ''Ethereum'' 250012 15 (- 230) 0),
           Sleep 15] @ [WgDone], Returned)
   \<and> cycles (fst (snd (pollApi cents True Map.empty ([chart_run] @ chart_stop # [chart_run]))))
       = length [chart_run]"
proof -
  have a: "stop text_stop" by (simp add: text_stop_def)
  have b: "stop chart_stop" by (simp add: chart_stop_def)
  have t1: "pollApi_text cents True [text_run]
              = ([Get, SendText (format_cycle cents one_asset [''1027'']), Sleep 5], Running)"
    unfolding pollApi_text_def pollApi_text_loop_one_asset by simp
  have c1: "pollApi cents True Map.empty [chart_run]
     = ([''.data.1027'' \<mapsto> ''2024-03-09 17:00:00|2500.12\<newline>''],
        [Get, SendPhoto ''1027.png'' (buildPriceString cents ''Ethereum'' 250012 15 (- 230) 0),
         Sleep 15], Running)"
    unfolding pollApi_def pollApi_loop_one_asset by simp
  have t: "snd (pollApi_text cents True [text_run]) = Running"
    unfolding t1 by simp
  have c: "snd (snd (pollApi cents True Map.empty [chart_run])) = Running"
    unfolding c1 by simp
  note k = stop_signal_ends_loop [OF a t b c, of "[text_run]" "[chart_run]",
      unfolded t1 c1 fst_conv snd_conv]
  from a b t c k show ?thesis by (intro conjI) (elim conjE, assumption)+
qed

section \<open>The history store on the code\<close>

text \<open>
  Claim C8. For every key and price, appendSample succeeds and changes one file, the one
  named ".data." followed by the key: its new contents are the old contents (nothing
  when the file did not exist) followed by the timestamp, a bar, the price as %.2f
  writes it, and a newline. The timestamp is the year, month, day and hour of the clock,
  each in decimal with leading zeros, with the separators of "YYYY-MM-DD HH" and
  the fixed text ":00:00"; it holds no newline and no bar, and for a year below 10000
  its fields have the widths 4, 2, 2, 2 and it is 19 bytes long.
\<close>

theorem appendSample_appends_line:
  "appendSample L fs key t price =
     Inr (fs(''.data.'' @ key \<mapsto>
            (case fs (''.data.'' @ key) of None \<Rightarrow> [] | Some c \<Rightarrow> c)
              @ tFmt t @ ''|'' @ Sprintf_2f L price @ ''\<newline>''))
   \<and> tFmt t = appendInt (Year t) 4 @ ''-'' @ appendInt (Month t) 2 @ ''-''
               @ appendInt (Day t) 2 @ '' '' @ appendInt (Hour t) 2 @ '':00:00''
   \<and> CHR ''\<newline>'' \<notin> set (tFmt t) \<and> CHR ''|'' \<notin> set (tFmt t)
   \<and> (Year t < 10000 \<and> Month t < 100 \<and> Day t < 100 \<and> Hour t < 100 \<longrightarrow>
        length (appendInt (Year t) 4) = 4 \<and> length (appendInt (Month t) 2) = 2
        \<and> length (appendInt (Day t) 2) = 2 \<and> length (appendInt (Hour t) 2) = 2
        \<and> length (tFmt t) = 19)"
proof -
  have "length (tFmt t) = 19"
    if "Year t < 10000" "Month t < 100" "Day t < 100" "Hour t < 100"
  proof -
    from that have "length (appendInt (Year t) 4) = 4" "length (appendInt (Month t) 2) = 2"
      "length (appendInt (Day t) 2) = 2" "length (appendInt (Hour t) 2) = 2"
      by (simp_all add: length_appendInt length_digits_2 length_digits_4)
    then show ?thesis by (simp add: tFmt_def)
  qed
  then show ?thesis
    by (simp add: appendSample_eq tFmt_chars length_appendInt length_digits_2 length_digits_4)
      (simp add: tFmt_def)
qed

theorem appendSample_appends_line_witness:
  "appendSample cents [''.data.1027'' \<mapsto> ''2024-03-09 16:00:00|2499.00\<newline>''] ''1027''
       \<lparr>Year = 2024, Month = 3, Day = 9, Hour = 17\<rparr> 250012
     = Inr [''.data.1027'' \<mapsto>
              ''2024-03-09 16:00:00|2499.00\<newline>2024-03-09 17:00:00|2500.12\<newline>'']
   \<and> Year \<lparr>Year = 2024, Month = 3, Day = 9, Hour = 17\<rparr> < 10000
   \<and> Month \<lparr>Year = 2024, Month = 3, Day = 9, Hour = 17\<rparr> < 100
   \<and> Day \<lparr>Year = 2024, Month = 3, Day = 9, Hour = 17\<rparr> < 100
   \<and> Hour \<lparr>Year = 2024, Month = 3, Day = 9, Hour = 17\<rparr> < 100
   \<and> length (tFmt \<lparr>Year = 2024, Month = 3, Day = 9, Hour = 17\<rparr>) = 19"
proof -
  note k = appendSample_appends_line
    [of cents "[''.data.1027'' \<mapsto> ''2024-03-09 16:00:00|2499.00\<newline>'']" "''1027''"
        "\<lparr>Year = 2024, Month = 3, Day = 9, Hour = 17\<rparr>" 250012]
  from k have "appendSample cents [''.data.1027'' \<mapsto> ''2024-03-09 16:00:00|2499.00\<newline>'']
       ''1027'' \<lparr>Year = 2024, Month = 3, Day = 9, Hour = 17\<rparr> 250012
     = Inr [''.data.1027'' \<mapsto>
              ''2024-03-09 16:00:00|2499.00\<newline>2024-03-09 17:00:00|2500.12\<newline>'']"
    unfolding tFmt_evening by (simp add: cents_def cents_format_250012)
  moreover from k have "length (tFmt \<lparr>Year = 2024, Month = 3, Day = 9, Hour = 17\<rparr>) = 19"
    by simp
  ultimately show ?thesis by simp
qed

text \<open>
  Claim C9. fetchPoints returns only if every retained line has the separator "|" and a
  second field that ParseFloat accepts. When the first retained line that is not well
  formed has no separator at all, fetchPoints panics with an index out of range at
  data[1], which is another failure than the panic on an unparsable float.
\<close>

theorem fetchPoints_separator_precondition:
  "(fetchPoints L symbolName fname fs = Inr (pts, fs1) \<longrightarrow>
      (\<exists>c. fs fname = Some c \<and> list_all (well_formed_line L) (retained c)))
   \<and> (fs fname = Some c \<and> retained c = pre @ l # post
        \<and> list_all (well_formed_line L) pre \<and> CHR ''|'' \<notin> set l \<longrightarrow>
      fetchPoints L symbolName fname fs = Inl IndexOutOfRange)
   \<and> (well_formed_line L l \<longleftrightarrow>
        (\<exists>d0 d1 ds y. strings_Split l (CHR ''|'') = d0 # d1 # ds \<and> ParseFloat L d1 = Some y))"
proof (intro conjI impI)
  assume ok: "fetchPoints L symbolName fname fs = Inr (pts, fs1)"
  then obtain c where c: "fs fname = Some c"
    by (cases "fs fname") (simp_all add: fetchPoints_missing)
  with ok have "\<exists>p. points_loop L 0 (retained c) = Inr p"
    by (auto simp: fetchPoints_eq split: sum.splits)
  then have "list_all (well_formed_line L) (retained c)"
    by (auto dest: points_loop_Inr_well_formed)
  with c show "\<exists>c. fs fname = Some c \<and> list_all (well_formed_line L) (retained c)"
    by blast
next
  assume "fs fname = Some c \<and> retained c = pre @ l # post
        \<and> list_all (well_formed_line L) pre \<and> CHR ''|'' \<notin> set l"
  then show "fetchPoints L symbolName fname fs = Inl IndexOutOfRange"
    by (simp add: fetchPoints_eq points_loop_no_separator del: points_loop.simps)
next
  show "well_formed_line L l \<longleftrightarrow>
        (\<exists>d0 d1 ds y. strings_Split l (CHR ''|'') = d0 # d1 # ds \<and> ParseFloat L d1 = Some y)"
    by (auto simp: well_formed_line_def line_price_def split: list.splits)
qed

theorem fetchPoints_separator_precondition_witness:
  "[''.data.1027'' \<mapsto> ''2024-03-09 17:00:00 2500.12\<newline>''] ''.data.1027''
      = Some ''2024-03-09 17:00:00 2500.12\<newline>''
   \<and> retained ''2024-03-09 17:00:00 2500.12\<newline>'' = [] @ ''2024-03-09 17:00:00 2500.12'' # []
   \<and> list_all (well_formed_line cents) []
   \<and> CHR ''|'' \<notin> set ''2024-03-09 17:00:00 2500.12''
   \<and> fetchPoints cents ''Ethereum'' ''.data.1027''
         [''.data.1027'' \<mapsto> ''2024-03-09 17:00:00 2500.12\<newline>''] = Inl IndexOutOfRange
   \<and> fetchPoints cents ''Ethereum'' ''.data.1027''
         [''.data.1027'' \<mapsto> ''2024-03-09 17:00:00|2500.12\<newline>'']
       = Inr ([(0, 250012)], [''.data.1027'' \<mapsto> ''2024-03-09 17:00:00|2500.12\<newline>''])
   \<and> list_all (well_formed_line cents) (retained ''2024-03-09 17:00:00|2500.12\<newline>'')"
proof -
  have bad: "fetchPoints cents ''Ethereum'' ''.data.1027''
         [''.data.1027'' \<mapsto> ''2024-03-09 17:00:00 2500.12\<newline>''] = Inl IndexOutOfRange"
    using fetchPoints_separator_precondition
      [of cents "''Ethereum''" "''.data.1027''"
        "[''.data.1027'' \<mapsto> ''2024-03-09 17:00:00 2500.12\<newline>'']" "[]" "Map.empty"
        "''2024-03-09 17:00:00 2500.12\<newline>''" "[]" "''2024-03-09 17:00:00 2500.12''" "[]"]
      retained_one_bad
    by simp
  have good: "list_all (well_formed_line cents) (retained ''2024-03-09 17:00:00|2500.12\<newline>'')"
    using fetchPoints_separator_precondition
      [of cents "''Ethereum''" "''.data.1027''"
        "[''.data.1027'' \<mapsto> ''2024-03-09 17:00:00|2500.12\<newline>'']" "[(0, 250012)]"
        "[''.data.1027'' \<mapsto> ''2024-03-09 17:00:00|2500.12\<newline>'']"]
      fetchPoints_one_line
    by simp
  from bad good retained_one_bad fetchPoints_one_line show ?thesis by simp
qed

text \<open>
  Claim C1, on the code. The claim says that one call of fetchPoints on a file of more
  than 100 lines rewrites the file to its last 100 lines. The code opens the file with
  os.Open, which is read-only, writes the retained lines to a bufio.Writer over that
  handle and returns without a call of Flush: nothing reaches the file. On the file
  \<open>history101\<close> of 101 lines fetchPoints returns the 100 points of the last 100 lines
  and the file is as before, 101 lines long, and differs from the retained lines.
\<close>

theorem fetchPoints_does_not_rewrite:
  "fetchPoints cents ''Ethereum'' ''.data.1027'' [''.data.1027'' \<mapsto> history101]
     = Inr (map (\<lambda>k. (100 * int k, 150)) [0..<100], [''.data.1027'' \<mapsto> history101])
   \<and> ScanLines history101 = old_line # replicate 100 new_line
   \<and> retained history101 = replicate 100 new_line
   \<and> length (ScanLines history101) = 101
   \<and> history101 \<noteq> file_of_lines (retained history101)"
proof -
  have p: "points_loop cents 0 (replicate 100 new_line)
             = Inr (map (\<lambda>k. (fromInt cents (int k), 150)) [0..<0 + 100])"
    using line_price_new_line by (rule points_loop_replicate)
  have w: "written_bytes (replicate 100 new_line) \<le> defaultBufSize"
    by (simp add: written_bytes_replicate new_line_def defaultBufSize_def)
  have f: "fetchPoints cents ''Ethereum'' ''.data.1027'' [''.data.1027'' \<mapsto> history101]
     = Inr (map (\<lambda>k. (100 * int k, 150)) [0..<100], [''.data.1027'' \<mapsto> history101])"
    using p w by (simp add: fetchPoints_eq retained_history101 cents_def)
  have "length history101 \<noteq> length (file_of_lines (retained history101))"
    unfolding retained_history101
    by (simp add: history101_def file_of_lines_def length_concat sum_list_replicate
          old_line_def new_line_def)
  then have "history101 \<noteq> file_of_lines (retained history101)" by auto
  with f show ?thesis by (simp add: ScanLines_history101 retained_history101)
qed

text \<open>
  Claim C2, on the code. The claim says that fetchPoints returns min(n, 100) points for
  every history file of n well-formed lines. The lemma \<open>fetchPoints_series\<close> above
  proves this while the retained lines fit the 4096 bytes of the writer's buffer. Beyond
  that the buffer overflows in the loop that writes the lines back, the writer flushes to
  the read-only handle, the write fails with EBADF and the code panics instead of
  returning the points. \<open>history_big\<close> holds 100 well-formed lines that take 4500
  bytes: fetchPoints panics on it, whatever the float64 operations are.
\<close>

theorem fetchPoints_panics_on_long_history:
  "fetchPoints cents ''Ethereum'' ''.data.1027'' [''.data.1027'' \<mapsto> history_big] = Inl EBADF
   \<and> fetchPoints L symbolName fname [fname \<mapsto> history_big]
       = Inl (if ParseFloat L ''100000000000000000000.00'' = None then ParseError else EBADF)
   \<and> ScanLines history_big = replicate 100 big_line
   \<and> list_all (well_formed_line cents) (ScanLines history_big)
   \<and> written_bytes (retained history_big) = 4500"
proof -
  have "fetchPoints cents ''Ethereum'' ''.data.1027'' [''.data.1027'' \<mapsto> history_big] = Inl EBADF"
    by (simp add: fetchPoints_history_big) (simp add: cents_def cents_parse_big)
  moreover have "list_all (well_formed_line cents) (replicate 100 big_line)"
    by (simp add: list_all_iff well_formed_line_def line_price_big_line)
  moreover have "written_bytes (replicate 100 big_line) = 4500"
    by (simp add: written_bytes_replicate big_line_def)
  ultimately show ?thesis
    by (simp add: fetchPoints_history_big ScanLines_replicate_big retained_history_big
          history_big_def [symmetric])
      (simp add: history_big_def ScanLines_replicate_big)
qed

text \<open>
  Claim C10, on the code. The claim says that, for every well-formed prior history file
  and every price, a sample appended by appendSample is the last point of the series
  that fetchPoints reads next. The lemma \<open>append_then_fetch\<close> above proves this while
  the retained lines fit the 4096 bytes of the writer's buffer. On a prior file of 99
  well-formed lines of 45 bytes and a price of 10 to the power 20, appendSample writes
  the hundredth line and fetchPoints then panics with EBADF in the loop that writes the
  lines back, so that no series is returned.
\<close>

theorem append_then_fetch_panics:
  "appendSample cents [''.data.1027'' \<mapsto> file_of_lines (replicate 99 big_line)] ''1027''
       \<lparr>Year = 2024, Month = 1, Day = 1, Hour = 10\<rparr> 10000000000000000000000
     = Inr [''.data.1027'' \<mapsto> history_big]
   \<and> fetchPoints cents ''Ethereum'' ''.data.1027'' [''.data.1027'' \<mapsto> history_big] = Inl EBADF
   \<and> list_all (well_formed_line cents) (ScanLines (file_of_lines (replicate 99 big_line)))
   \<and> ParseFloat cents (Sprintf_2f cents 10000000000000000000000) = Some 10000000000000000000000"
proof -
  have "replicate 100 big_line = replicate 99 big_line @ [big_line]"
    by (simp add: numeral_eq_Suc replicate_append_same)
  then have h: "history_big = file_of_lines (replicate 99 big_line) @ big_line @ ''\<newline>''"
    by (simp add: history_big_def file_of_lines_snoc)
  have a: "appendSample cents [''.data.1027'' \<mapsto> file_of_lines (replicate 99 big_line)] ''1027''
       \<lparr>Year = 2024, Month = 1, Day = 1, Hour = 10\<rparr> 10000000000000000000000
     = Inr [''.data.1027'' \<mapsto> history_big]"
    unfolding h appendSample_eq tFmt_new_year
    by (simp add: cents_def cents_format_big big_line_def)
  have f: "fetchPoints cents ''Ethereum'' ''.data.1027'' [''.data.1027'' \<mapsto> history_big] = Inl EBADF"
    by (simp add: fetchPoints_history_big) (simp add: cents_def cents_parse_big)
  have w: "list_all (well_formed_line cents) (ScanLines (file_of_lines (replicate 99 big_line)))"
    by (simp add: ScanLines_replicate_big list_all_iff well_formed_line_def line_price_big_line)
  have p: "ParseFloat cents (Sprintf_2f cents 10000000000000000000000) = Some 10000000000000000000000"
    by (simp add: cents_def cents_format_big cents_parse_big)
  from a f w p show ?thesis by (intro conjI)
qed

end
